theory Spec2Isabelle
  imports Complex_Main "HOL-Library.Word"
begin

section \<open>JavaScript numbers\<close>

text \<open>
  A JavaScript Number is modelled as a real number or one of the three special values
  of IEEE 754 arithmetic. Rounding to 53 bits and the sign of zero are not modelled: every
  finite operation is exact and a zero divisor counts as \<open>+0\<close>. The special values are
  kept because the source reaches them: \<open>Math.log(0)\<close> is \<open>-Infinity\<close>, an unset
  environment variable parses to \<open>NaN\<close>, and a comparison with \<open>NaN\<close> is false.
\<close>

datatype number = Num real | PosInf | NegInf | NaN

fun num_neg :: "number \<Rightarrow> number" where
  "num_neg (Num x) = Num (- x)"
| "num_neg PosInf = NegInf"
| "num_neg NegInf = PosInf"
| "num_neg NaN = NaN"

fun num_add :: "number \<Rightarrow> number \<Rightarrow> number" where
  "num_add (Num x) (Num y) = Num (x + y)"
| "num_add NaN _ = NaN"
| "num_add _ NaN = NaN"
| "num_add PosInf NegInf = NaN"
| "num_add NegInf PosInf = NaN"
| "num_add PosInf _ = PosInf"
| "num_add _ PosInf = PosInf"
| "num_add NegInf _ = NegInf"
| "num_add _ NegInf = NegInf"

definition num_sub :: "number \<Rightarrow> number \<Rightarrow> number" where
  "num_sub a b = num_add a (num_neg b)"

fun num_mul :: "number \<Rightarrow> number \<Rightarrow> number" where
  "num_mul (Num x) (Num y) = Num (x * y)"
| "num_mul NaN _ = NaN"
| "num_mul _ NaN = NaN"
| "num_mul (Num x) i = (if x = 0 then NaN else if 0 < x then i else num_neg i)"
| "num_mul i (Num y) = (if y = 0 then NaN else if 0 < y then i else num_neg i)"
| "num_mul PosInf i = i"
| "num_mul NegInf i = num_neg i"

fun num_div :: "number \<Rightarrow> number \<Rightarrow> number" where
  "num_div (Num x) (Num y) =
     (if y = 0 then (if x = 0 then NaN else if 0 < x then PosInf else NegInf)
      else Num (x / y))"
| "num_div NaN _ = NaN"
| "num_div _ NaN = NaN"
| "num_div (Num x) _ = Num 0"
| "num_div i (Num y) = (if 0 \<le> y then i else num_neg i)"
| "num_div _ _ = NaN"

fun num_lt :: "number \<Rightarrow> number \<Rightarrow> bool" where
  "num_lt (Num x) (Num y) = (x < y)"
| "num_lt NaN _ = False"
| "num_lt _ NaN = False"
| "num_lt _ NegInf = False"
| "num_lt NegInf _ = True"
| "num_lt PosInf _ = False"
| "num_lt _ PosInf = True"

definition num_ge :: "number \<Rightarrow> number \<Rightarrow> bool" where
  "num_ge a b = (a \<noteq> NaN \<and> b \<noteq> NaN \<and> \<not> num_lt a b)"

definition num_le :: "number \<Rightarrow> number \<Rightarrow> bool" where
  "num_le a b = num_ge b a"

definition Math_max :: "number \<Rightarrow> number \<Rightarrow> number" where
  "Math_max a b = (if a = NaN \<or> b = NaN then NaN else if num_lt a b then b else a)"

definition Math_min :: "number \<Rightarrow> number \<Rightarrow> number" where
  "Math_min a b = (if a = NaN \<or> b = NaN then NaN else if num_lt b a then b else a)"

fun Math_abs :: "number \<Rightarrow> number" where
  "Math_abs (Num x) = Num \<bar>x\<bar>"
| "Math_abs NaN = NaN"
| "Math_abs _ = PosInf"

fun Math_log :: "number \<Rightarrow> number" where
  "Math_log (Num x) = (if x < 0 then NaN else if x = 0 then NegInf else Num (ln x))"
| "Math_log PosInf = PosInf"
| "Math_log _ = NaN"

text \<open>Truthiness of a Number, and the operator \<open>a || b\<close> on Numbers and on strings
  that may be undefined.\<close>

fun truthy :: "number \<Rightarrow> bool" where
  "truthy (Num x) = (x \<noteq> 0)"
| "truthy NaN = False"
| "truthy _ = True"

definition num_or :: "number \<Rightarrow> number \<Rightarrow> number" where
  "num_or a b = (if truthy a then a else b)"

fun str_or :: "string option \<Rightarrow> string \<Rightarrow> string" where
  "str_or None d = d"
| "str_or (Some s) d = (if s = [] then d else s)"

section \<open>Digests, hexadecimal strings and \<open>parseInt\<close>\<close>

text \<open>
  Node's \<open>crypto\<close> module is a library, not code of the repository: the keyed digest
  \<open>createHmac('sha256', key).update(msg).digest()\<close> and the plain digest
  \<open>createHash('sha256').update(msg).digest()\<close> are parameters of the model, functions
  from byte strings to lists of bytes. \<open>digest('hex')\<close> is the lower-case hexadecimal
  rendering of those bytes, written out here.
\<close>

type_synonym hmac_fn = "string \<Rightarrow> string \<Rightarrow> 8 word list"
type_synonym hash_fn = "string \<Rightarrow> 8 word list"

definition hexChar :: "nat \<Rightarrow> char" where
  "hexChar n = ''0123456789abcdef'' ! n"

definition digest_hex :: "8 word list \<Rightarrow> string" where
  "digest_hex bs = concat (map (\<lambda>b. [hexChar (unat b div 16), hexChar (unat b mod 16)]) bs)"

text \<open>\<open>parseInt(s, 16)\<close>: leading white space is skipped, then an optional sign and an
  optional \<open>0x\<close>; the longest run of hexadecimal digits that follows is the value, and
  there being none gives \<open>NaN\<close>.\<close>

definition isWhiteSpace :: "char \<Rightarrow> bool" where
  "isWhiteSpace c = (of_char c \<in> {9, 10, 11, 12, 13, 32 :: nat})"

definition digitValue :: "char \<Rightarrow> nat option" where
  "digitValue c =
     (let n = (of_char c :: nat) in
      if 48 \<le> n \<and> n \<le> 57 then Some (n - 48)
      else if 97 \<le> n \<and> n \<le> 102 then Some (n - 87)
      else if 65 \<le> n \<and> n \<le> 70 then Some (n - 55)
      else None)"

definition parseInt16 :: "string \<Rightarrow> number" where
  "parseInt16 str =
     (let s = dropWhile isWhiteSpace str;
          neg = (take 1 s = ''-'');
          s1 = (if take 1 s = ''-'' \<or> take 1 s = ''+'' then drop 1 s else s);
          s2 = (if take 2 s1 = ''0x'' \<or> take 2 s1 = ''0X'' then drop 2 s1 else s1);
          z = takeWhile (\<lambda>c. digitValue c \<noteq> None) s2
      in if z = [] then NaN
         else let m = foldl (\<lambda>acc c. acc * 16 + the (digitValue c)) (0::nat) z
              in Num (if neg then - real m else real m))"

section \<open>The crash point (GameManager.calculateCrashPoint)\<close>

text \<open>
  The process environment. The numeric variables are held as the Numbers that
  \<open>parseFloat\<close> and \<open>parseInt\<close> return for them (\<open>NaN\<close> when a variable is unset);
  the secret is the variable itself, absent when unset.
\<close>

record env =
  PROVABLY_FAIR_SECRET :: "string option"
  MAX_CRASH_MULTIPLIER :: number
  MIN_CRASH_MULTIPLIER :: number
  PRICE_CACHE_DURATION :: number

definition engineSecret :: "env \<Rightarrow> string" where
  "engineSecret e = str_or (PROVABLY_FAIR_SECRET e) ''secret''"

definition maxCrashOf :: "env \<Rightarrow> number" where
  "maxCrashOf e = num_or (MAX_CRASH_MULTIPLIER e) (Num 120)"

definition minCrashOf :: "env \<Rightarrow> number" where
  "minCrashOf e = num_or (MIN_CRASH_MULTIPLIER e) (Num (101 / 100))"

definition calculateCrashPoint :: "env \<Rightarrow> hmac_fn \<Rightarrow> string \<Rightarrow> string \<Rightarrow> number" where
  "calculateCrashPoint e H seed roundId =
     (let hash = digest_hex (H (engineSecret e) (seed @ roundId));
          hashNum = parseInt16 (take 8 hash);
          uniform = num_div hashNum (Num 4294967295);
          maxCrash = maxCrashOf e;
          minCrash = minCrashOf e;
          crash = num_add minCrash (num_div (Math_log (num_sub (Num 1) uniform)) (Num (- (1 / 10))))
      in Math_min (Math_max crash minCrash) maxCrash)"

text \<open>The reference definition, following the words of the specification: the first four
  bytes of the keyed digest as an unsigned big-endian integer, normalised, mapped through
  the inverse exponential distribution and clamped.\<close>

definition be_uint :: "8 word list \<Rightarrow> nat" where
  "be_uint bs = foldl (\<lambda>acc b. acc * 256 + unat b) 0 bs"



text \<open>The digest functions of the library return 32 bytes.\<close>

definition digest32 :: "hmac_fn \<Rightarrow> bool" where
  "digest32 H = (\<forall>k m. length (H k m) = 32)"

section \<open>Rounds and bets (models/GameRound.js)\<close>

text \<open>JSON values, for the payloads of broadcast events and of HTTP responses. A date is
  rendered as its number of milliseconds.\<close>

datatype jsval = JStr string | JNum number | JBool bool | JUndefined | JObj "(string \<times> jsval) list"

type_synonym payload = "(string \<times> jsval) list"

datatype status = waiting | active | crashed | completed

fun statusName :: "status \<Rightarrow> string" where
  "statusName waiting = ''waiting''"
| "statusName active = ''active''"
| "statusName crashed = ''crashed''"
| "statusName completed = ''completed''"

record payout =
  cryptoAmount_p :: number
  usdAmount_p :: number

text \<open>The object that \<open>placeBet\<close> builds, and the bet of a round: pushing the object
  onto \<open>bets\<close> makes it a subdocument, with the defaults of the schema.\<close>

record betObject =
  playerId :: string
  usdAmount :: number
  cryptoAmount :: number
  cryptocurrency :: string
  priceAtTime :: number
  transactionHash :: string

record bet = betObject +
  cashedOut :: bool
  cashoutMultiplier :: "number option"
  payout :: "payout option"

definition castBet :: "betObject \<Rightarrow> bet" where
  "castBet b =
     \<lparr>playerId = playerId b, usdAmount = usdAmount b, cryptoAmount = cryptoAmount b,
      cryptocurrency = cryptocurrency b, priceAtTime = priceAtTime b,
      transactionHash = transactionHash b,
      cashedOut = False, cashoutMultiplier = None, payout = None\<rparr>"

record gameRound =
  roundId :: string
  startTime :: int
  endTime :: "int option"
  crashPoint :: number
  seed :: string
  seedHash :: string
  bets :: "bet list"
  status :: status
  maxMultiplier :: number

text \<open>The GameRound collection, with its unique index on \<open>roundId\<close>.\<close>

type_synonym rounds_db = "string \<rightharpoonup> gameRound"

section \<open>The HTTP routes that read rounds (routes/gameRoutes.js)\<close>

datatype response = Response nat payload

text \<open>\<open>parseFloat(x.toFixed(d))\<close>: a finite \<open>x\<close> below \<open>10^21\<close> is rounded to \<open>d\<close>
  decimals, a tie away from zero; every other Number is printed and read back as
  itself.\<close>

definition toFixed_parsed :: "nat \<Rightarrow> number \<Rightarrow> number" where
  "toFixed_parsed d n =
     (case n of
        Num x \<Rightarrow> if \<bar>x\<bar> < 10 ^ 21
                 then Num (sgn x * of_int \<lfloor>\<bar>x\<bar> * 10 ^ d + 1 / 2\<rfloor> / 10 ^ d)
                 else Num x
      | _ \<Rightarrow> n)"

definition optDate :: "int option \<Rightarrow> jsval" where
  "optDate t = (case t of None \<Rightarrow> JUndefined | Some ms \<Rightarrow> JNum (Num (of_int ms)))"

text \<open>GET \<open>/round/:roundId\<close>.\<close>

definition getRound :: "rounds_db \<Rightarrow> string \<Rightarrow> response" where
  "getRound db rid =
     (case db rid of
        None \<Rightarrow> Response 404 [(''error'', JStr ''Round not found'')]
      | Some rd \<Rightarrow>
          Response 200
            ([(''roundId'', JStr (roundId rd)),
              (''startTime'', JNum (Num (of_int (startTime rd)))),
              (''endTime'', optDate (endTime rd)),
              (''crashPoint'', JNum (crashPoint rd)),
              (''seedHash'', JStr (seedHash rd)),
              (''status'', JStr (statusName (status rd))),
              (''maxMultiplier'', JNum (maxMultiplier rd)),
              (''totalBets'', JNum (Num (real (length (bets rd))))),
              (''totalBetAmount'',
                 JNum (foldl (\<lambda>sum b. num_add sum (usdAmount b)) (Num 0) (bets rd)))]
             @ (if status rd = crashed then [(''seed'', JStr (seed rd))] else [])))"

text \<open>The projections of a round that GET \<open>/state\<close> and GET \<open>/history\<close> return.\<close>

definition stateItem :: "gameRound \<Rightarrow> payload" where
  "stateItem rd =
     [(''roundId'', JStr (roundId rd)),
      (''status'', JStr (statusName (status rd))),
      (''seedHash'', JStr (seedHash rd)),
      (''startTime'', JNum (Num (of_int (startTime rd))))]"

definition historyItem :: "gameRound \<Rightarrow> payload" where
  "historyItem rd =
     [(''roundId'', JStr (roundId rd)),
      (''crashPoint'', JNum (crashPoint rd)),
      (''startTime'', JNum (Num (of_int (startTime rd)))),
      (''endTime'', optDate (endTime rd)),
      (''maxMultiplier'', JNum (maxMultiplier rd))]"

text \<open>POST \<open>/verify\<close>. The body's fields may be absent; an empty string and the Numbers
  \<open>0\<close> and \<open>NaN\<close> are as good as absent.\<close>

record verify_body =
  body_roundId :: "string option"
  body_seed :: "string option"
  body_expectedCrashPoint :: "number option"

definition verifySecret :: "env \<Rightarrow> string" where
  "verifySecret e = str_or (PROVABLY_FAIR_SECRET e) ''default-secret''"

definition verifyCrashPoint :: "env \<Rightarrow> hmac_fn \<Rightarrow> string \<Rightarrow> string \<Rightarrow> number" where
  "verifyCrashPoint e H sd rid =
     (let hash = digest_hex (H (verifySecret e) (sd @ rid));
          hashNumber = parseInt16 (take 8 hash);
          maxCrash = maxCrashOf e;
          minCrash = minCrashOf e;
          uniform = num_div hashNumber (Num 4294967295);
          calculatedCrashPoint =
            num_add minCrash (num_div (Math_log (num_sub (Num 1) uniform)) (Num (- (1 / 10))))
      in Math_min (Math_max calculatedCrashPoint minCrash) maxCrash)"

definition verify :: "env \<Rightarrow> hmac_fn \<Rightarrow> hash_fn \<Rightarrow> rounds_db \<Rightarrow> verify_body \<Rightarrow> response" where
  "verify e H S db body =
     (case (body_roundId body, body_seed body, body_expectedCrashPoint body) of
        (Some rid, Some sd, Some expectedCrashPoint) \<Rightarrow>
          if rid = [] \<or> sd = [] \<or> \<not> truthy expectedCrashPoint
          then Response 400 [(''error'', JStr ''Missing required fields'')]
          else (case db rid of
                  None \<Rightarrow> Response 404 [(''error'', JStr ''Round not found'')]
                | Some rd \<Rightarrow>
                    if status rd \<noteq> crashed
                    then Response 400 [(''error'', JStr ''Round not completed yet'')]
                    else if digest_hex (S sd) \<noteq> seedHash rd
                    then Response 400 [(''error'', JStr ''Invalid seed'')]
                    else
                      let finalCrashPoint = verifyCrashPoint e H sd rid;
                          isValid = num_lt (Math_abs (num_sub finalCrashPoint (crashPoint rd)))
                                      (Num (1 / 100))
                      in Response 200
                           [(''valid'', JBool isValid),
                            (''providedCrashPoint'', JNum expectedCrashPoint),
                            (''actualCrashPoint'', JNum (crashPoint rd)),
                            (''calculatedCrashPoint'', JNum (toFixed_parsed 2 finalCrashPoint)),
                            (''seedHash'', JStr (seedHash rd)),
                            (''seed'', JStr (seed rd))])
      | _ \<Rightarrow> Response 400 [(''error'', JStr ''Missing required fields'')])"

section \<open>Prices (services/CryptoService.js)\<close>

record cache_entry =
  price :: number
  timestamp :: int

type_synonym priceCache = "string \<rightharpoonup> cache_entry"

text \<open>What the price API answers: the request fails, or the response holds
  \<open>response.data[coinId]?.usd\<close>, which may be undefined.\<close>

datatype api_response = ApiError | ApiData "number option"

datatype 'a outcome = Returned 'a | Thrown string

definition upperChar :: "char \<Rightarrow> char" where
  "upperChar c =
     (let n = (of_char c :: nat) in if 97 \<le> n \<and> n \<le> 122 then char_of (n - 32) else c)"

definition toUpperCase :: "string \<Rightarrow> string" where
  "toUpperCase s = map upperChar s"

definition cryptoMapping :: "string \<rightharpoonup> string" where
  "cryptoMapping = map_of [(''BTC'', ''bitcoin''), (''ETH'', ''ethereum''), (''USDT'', ''tether'')]"

definition fallbackPrices :: "string \<rightharpoonup> number" where
  "fallbackPrices = map_of [(''BTC'', Num 45000), (''ETH'', Num 3000), (''USDT'', Num 1)]"

definition cacheTimeout :: "env \<Rightarrow> number" where
  "cacheTimeout e = num_or (PRICE_CACHE_DURATION e) (Num 10000)"

text \<open>The \<open>catch\<close> block of \<open>getPrice\<close>: the cached price, even if expired, else the
  fallback price, else the error is thrown on.\<close>

definition getPrice_catch :: "priceCache \<Rightarrow> string \<Rightarrow> number outcome" where
  "getPrice_catch cache c =
     (case cache (toUpperCase c) of
        Some cached \<Rightarrow> Returned (price cached)
      | None \<Rightarrow>
          (case fallbackPrices (toUpperCase c) of
             Some fallbackPrice \<Rightarrow>
               if truthy fallbackPrice then Returned fallbackPrice
               else Thrown (''Unable to get price for '' @ c)
           | None \<Rightarrow> Thrown (''Unable to get price for '' @ c)))"

text \<open>\<open>getPrice\<close> up to its request to the API: it has settled (with the cache it
  leaves), or it awaits the answer for a coin.\<close>

datatype price_step = PriceDone "number outcome" priceCache | PriceFetch string

definition getPrice_begin :: "env \<Rightarrow> priceCache \<Rightarrow> int \<Rightarrow> string \<Rightarrow> price_step" where
  "getPrice_begin e cache t c =
     (let cacheKey = toUpperCase c in
      case cache cacheKey of
        Some cached \<Rightarrow>
          if num_lt (Num (of_int (t - timestamp cached))) (cacheTimeout e)
          then PriceDone (Returned (price cached)) cache
          else if toUpperCase c = ''USDT''
          then PriceDone (Returned (Num 1)) (cache(cacheKey \<mapsto> \<lparr>price = Num 1, timestamp = t\<rparr>))
          else (case cryptoMapping (toUpperCase c) of
                  None \<Rightarrow> PriceDone (getPrice_catch cache c) cache
                | Some coinId \<Rightarrow> PriceFetch coinId)
      | None \<Rightarrow>
          if toUpperCase c = ''USDT''
          then PriceDone (Returned (Num 1)) (cache(cacheKey \<mapsto> \<lparr>price = Num 1, timestamp = t\<rparr>))
          else (case cryptoMapping (toUpperCase c) of
                  None \<Rightarrow> PriceDone (getPrice_catch cache c) cache
                | Some coinId \<Rightarrow> PriceFetch coinId))"

text \<open>\<open>getPrice\<close> from the answer of the API on, with the cache as it is by then.\<close>

definition getPrice_resume ::
  "priceCache \<Rightarrow> int \<Rightarrow> string \<Rightarrow> api_response \<Rightarrow> number outcome \<times> priceCache" where
  "getPrice_resume cache t c api =
     (case api of
        ApiError \<Rightarrow> (getPrice_catch cache c, cache)
      | ApiData None \<Rightarrow> (getPrice_catch cache c, cache)
      | ApiData (Some p) \<Rightarrow>
          if \<not> truthy p then (getPrice_catch cache c, cache)
          else (Returned p, cache(toUpperCase c \<mapsto> \<lparr>price = p, timestamp = t\<rparr>)))"

text \<open>A whole call of \<open>getPrice\<close> that nothing interleaves with.\<close>

definition getPrice ::
  "env \<Rightarrow> priceCache \<Rightarrow> int \<Rightarrow> string \<Rightarrow> api_response \<Rightarrow> number outcome \<times> priceCache" where
  "getPrice e cache t c api =
     (case getPrice_begin e cache t c of
        PriceDone r cache' \<Rightarrow> (r, cache')
      | PriceFetch coinId \<Rightarrow> getPrice_resume cache t c api)"

section \<open>The game engine (services/GameManager.js)\<close>

text \<open>
  JavaScript runs one piece of code at a time: an \<open>async\<close> method runs until its next
  \<open>await\<close>, and only there can a timer, a request or the continuation of another call
  run. The engine is modelled so: every method is cut at its awaits into segments, each a
  function on the state of the whole server, and a call that has reached an await is kept
  as a task, with its local variables, until an event resumes it. Two awaits in a row
  with nothing between them that touches the modelled state are one await.

  Modelled state: the fields of the GameManager, the price cache of its CryptoService, the
  wallets of the Player collection, the GameRound collection, the timers that are
  pending, the events broadcast so far and the results of the calls that have settled.
  Not modelled: the statistics of players, the Transaction log and the logger, which no
  modelled code reads; \<open>updatePlayerStats\<close> and \<open>logTransaction\<close> catch their own
  errors, so they are awaits with no effect here.
\<close>

datatype error =
    BettingNotAllowed
  | InsufficientBalance
  | CannotCashOut
  | NoActiveBet
  | PriceUnavailable string
  | SaveFailed
  | TypeError

record gameManager =
  currentRound :: "gameRound option"
  multiplierInterval :: "nat option"
  isGameActive :: bool
  currentMultiplier :: number
  gameStartTime :: "int option"
  isSaving :: bool
  priceCache :: priceCache

text \<open>The Player collection (models/Player.js). The wallet of a player has the three
  paths \<open>BTC\<close>, \<open>ETH\<close> and \<open>USDT\<close>, each a Number with \<open>min: 0\<close> (a document
  created without them gets 0, 0 and 1000), so a document read from the collection holds
  a Number under each. \<open>player.wallet[c]\<close> for any other string \<open>c\<close> is \<open>undefined\<close>,
  which is \<open>NaN\<close> in arithmetic and makes every comparison false, and an assignment to it
  is not an assignment to a path of the document: \<open>save()\<close> does not store it.\<close>

record wallet =
  BTC :: number
  ETH :: number
  USDT :: number

type_synonym players_db = "string \<rightharpoonup> wallet"

definition balanceOf :: "wallet \<Rightarrow> string \<Rightarrow> number" where
  "balanceOf wal c =
     (if c = ''BTC'' then BTC wal else if c = ''ETH'' then ETH wal
      else if c = ''USDT'' then USDT wal else NaN)"

definition setBalance :: "wallet \<Rightarrow> string \<Rightarrow> number \<Rightarrow> wallet" where
  "setBalance wal c v =
     (if c = ''BTC'' then wal\<lparr>BTC := v\<rparr> else if c = ''ETH'' then wal\<lparr>ETH := v\<rparr>
      else if c = ''USDT'' then wal\<lparr>USDT := v\<rparr> else wal)"

text \<open>\<open>player.save()\<close> validates the document before it writes: a balance that is not
  a number, or that is below the \<open>min: 0\<close> of the schema, makes it reject, and nothing is
  written. What was assigned under a key that is not a path is not validated. The write
  itself sets the one path that was modified, in the document as the collection holds it
  by then.\<close>

definition validBalance :: "number \<Rightarrow> bool" where
  "validBalance v = (v \<noteq> NaN \<and> \<not> num_lt v (Num 0))"

definition validates :: "string \<Rightarrow> number \<Rightarrow> bool" where
  "validates c v = (c \<in> set [''BTC'', ''ETH'', ''USDT''] \<longrightarrow> validBalance v)"

definition writeBalance :: "string \<Rightarrow> string \<Rightarrow> number \<Rightarrow> players_db \<Rightarrow> players_db" where
  "writeBalance pid c v db =
     (case db pid of None \<Rightarrow> db | Some wal \<Rightarrow> db(pid \<mapsto> setBalance wal c v))"

datatype callback = StartGamePhase | UpdateMultiplier | StartNewRound

datatype timer = Timeout callback | Interval callback

datatype caller = FromCrashGame | FromStartNewRound

text \<open>The suspended calls of the engine itself: \<open>endRound\<close> in its loop over the bets,
  \<open>endRound\<close> in \<open>safeSave\<close> (with the document being saved), \<open>endRound\<close> returned to
  the caller that awaits it, \<open>startNewRound\<close> saving the new round, and
  \<open>startGamePhase\<close> in \<open>safeSave\<close> or past a \<open>safeSave\<close> that did nothing.\<close>

datatype etask =
    EndRound_Stats caller
  | EndRound_Saving caller gameRound
  | EndRound_Return caller
  | NewRound_Saving gameRound
  | GamePhase_Saving gameRound
  | GamePhase_Return

text \<open>The suspended calls of players. \<open>placeBet\<close>: awaiting the price API (player,
  amount, currency, coin); awaiting \<open>Player.findOne\<close> (player, amount, currency,
  price); awaiting \<open>player.save()\<close> (the bet object, the balance to write);
  awaiting \<open>safeSave\<close> (the bet object, the document being saved if any). \<open>cashOut\<close>: the same three
  awaits, with the settled bet and its multiplier.\<close>

datatype ptask =
    PlaceBet_Price string number string string
  | PlaceBet_Find string number string number
  | PlaceBet_SavePlayer betObject number
  | PlaceBet_SaveRound betObject "gameRound option"
  | CashOut_Find bet number
  | CashOut_SavePlayer bet number number
  | CashOut_SaveRound bet number "gameRound option"

datatype settlement =
    BetRejected error
  | BetPlaced betObject
  | CashOutRejected error
  | CashedOut number "payout option"

text \<open>What an event reads from outside: the clock, whether the database carried out the
  awaited \<open>save()\<close> (the validation that comes before is part of the model), the answer
  of the price API, and the values drawn by \<open>generateRoundId\<close>,
  \<open>generateSeed\<close> and \<open>generateTransactionHash\<close>.\<close>

record input =
  now :: int
  saveOk :: bool
  apiResponse :: api_response
  newRoundId :: string
  newSeed :: string
  newTransactionHash :: string

record world =
  gm :: gameManager
  players :: players_db
  rounds :: rounds_db
  timers :: "(nat \<times> timer) list"
  nextHandle :: nat
  etasks :: "etask list"
  ptasks :: "ptask list"
  emitted :: "(string \<times> payload) list"
  settled :: "(string \<times> settlement) list"

definition emit :: "string \<Rightarrow> payload \<Rightarrow> world \<Rightarrow> world" where
  "emit name body w = w\<lparr>emitted := emitted w @ [(name, body)]\<rparr>"

definition settle :: "string \<Rightarrow> settlement \<Rightarrow> world \<Rightarrow> world" where
  "settle pid r w = w\<lparr>settled := settled w @ [(pid, r)]\<rparr>"

definition suspendE :: "etask \<Rightarrow> world \<Rightarrow> world" where
  "suspendE t w = w\<lparr>etasks := etasks w @ [t]\<rparr>"

definition suspendP :: "ptask \<Rightarrow> world \<Rightarrow> world" where
  "suspendP t w = w\<lparr>ptasks := ptasks w @ [t]\<rparr>"

definition setTimer :: "timer \<Rightarrow> world \<Rightarrow> world" where
  "setTimer t w = w\<lparr>timers := timers w @ [(nextHandle w, t)], nextHandle := Suc (nextHandle w)\<rparr>"

definition clearTimer :: "nat \<Rightarrow> world \<Rightarrow> world" where
  "clearTimer h w = w\<lparr>timers := filter (\<lambda>(k, t). k \<noteq> h) (timers w)\<rparr>"

text \<open>\<open>stop()\<close>.\<close>

definition stop :: "world \<Rightarrow> world" where
  "stop w = (case multiplierInterval (gm w) of None \<Rightarrow> w | Some h \<Rightarrow> clearTimer h w)"

text \<open>\<open>safeSave(this.currentRound)\<close>, up to its await: nothing when a save is under
  way (or there is no document, the error being caught), else the flag is raised and the
  document as it is now goes to the database. After the await the document is written if
  the save succeeded, and the flag is lowered.\<close>

definition safeSave_begin :: "gameManager \<Rightarrow> gameManager \<times> gameRound option" where
  "safeSave_begin g =
     (if isSaving g then (g, None)
      else case currentRound g of
             None \<Rightarrow> (g, None)
           | Some doc \<Rightarrow> (g\<lparr>isSaving := True\<rparr>, Some doc))"

definition safeSave_end :: "bool \<Rightarrow> gameRound \<Rightarrow> world \<Rightarrow> world" where
  "safeSave_end ok doc w =
     w\<lparr>rounds := (if ok then (rounds w)(roundId doc \<mapsto> doc) else rounds w),
       gm := (gm w)\<lparr>isSaving := False\<rparr>\<rparr>"

text \<open>\<open>endRound()\<close>, called and awaited by \<open>crashGame\<close> and by \<open>startNewRound\<close>.\<close>

definition endRound_save :: "caller \<Rightarrow> world \<Rightarrow> world" where
  "endRound_save cl w =
     (case safeSave_begin (gm w) of
        (g, None) \<Rightarrow> suspendE (EndRound_Return cl) (w\<lparr>gm := g\<rparr>)
      | (g, Some doc) \<Rightarrow> suspendE (EndRound_Saving cl doc) (w\<lparr>gm := g\<rparr>))"

definition endRound :: "caller \<Rightarrow> input \<Rightarrow> world \<Rightarrow> world" where
  "endRound cl i w =
     (case currentRound (gm w) of
        None \<Rightarrow> suspendE (EndRound_Return cl) w
      | Some r \<Rightarrow>
          if status r = crashed then suspendE (EndRound_Return cl) w
          else
            let r' = r\<lparr>endTime := Some (now i), status := crashed\<rparr>;
                w' = w\<lparr>gm := (gm w)\<lparr>currentRound := Some r'\<rparr>\<rparr>
            in if list_ex (\<lambda>b. \<not> cashedOut b) (bets r') then suspendE (EndRound_Stats cl) w'
               else endRound_save cl w')"

text \<open>\<open>crashGame()\<close>, up to its await of \<open>endRound\<close>, and after it.\<close>

definition crashGame :: "input \<Rightarrow> world \<Rightarrow> world" where
  "crashGame i w =
     (if \<not> isGameActive (gm w) \<or> currentRound (gm w) = None then w
      else
        let w1 = w\<lparr>gm := (gm w)\<lparr>isGameActive := False\<rparr>\<rparr>;
            w2 = (case multiplierInterval (gm w1) of None \<Rightarrow> w1 | Some h \<Rightarrow> clearTimer h w1)
        in endRound FromCrashGame i w2)"

definition crashGame_finish :: "world \<Rightarrow> world" where
  "crashGame_finish w =
     (case currentRound (gm w) of
        None \<Rightarrow> w
      | Some r \<Rightarrow>
          setTimer (Timeout StartNewRound)
            (emit ''round:crashed''
               [(''roundId'', JStr (roundId r)),
                (''crashPoint'', JNum (crashPoint r)),
                (''finalMultiplier'', JNum (currentMultiplier (gm w)))] w))"

text \<open>\<open>startNewRound()\<close>: the optional \<open>endRound\<close>, the creation of the round up to the
  await of its \<open>save()\<close>, and what follows the save.\<close>

definition startNewRound_create :: "env \<Rightarrow> hmac_fn \<Rightarrow> hash_fn \<Rightarrow> input \<Rightarrow> world \<Rightarrow> world" where
  "startNewRound_create e H S i w =
     (let r = \<lparr>roundId = newRoundId i,
               startTime = now i,
               endTime = None,
               crashPoint = calculateCrashPoint e H (newSeed i) (newRoundId i),
               seed = newSeed i,
               seedHash = digest_hex (S (newSeed i)),
               bets = [],
               status = waiting,
               maxMultiplier = Num 1\<rparr>
      in suspendE (NewRound_Saving r) (w\<lparr>gm := (gm w)\<lparr>currentRound := Some r\<rparr>\<rparr>))"

definition startNewRound :: "env \<Rightarrow> hmac_fn \<Rightarrow> hash_fn \<Rightarrow> input \<Rightarrow> world \<Rightarrow> world" where
  "startNewRound e H S i w =
     (if currentRound (gm w) \<noteq> None \<and> isGameActive (gm w) then endRound FromStartNewRound i w
      else startNewRound_create e H S i w)"

definition startNewRound_saved :: "gameRound \<Rightarrow> input \<Rightarrow> world \<Rightarrow> world" where
  "startNewRound_saved r i w =
     (if saveOk i
      then setTimer (Timeout StartGamePhase)
             (emit ''round:new''
                [(''roundId'', JStr (roundId r)),
                 (''seedHash'', JStr (seedHash r)),
                 (''bettingEndsIn'', JNum (Num 3000))]
                (w\<lparr>rounds := (rounds w)(roundId r \<mapsto> r)\<rparr>))
      else w)"

text \<open>\<open>startGamePhase()\<close>, up to its await of \<open>safeSave\<close>, and after it.\<close>

definition startGamePhase :: "input \<Rightarrow> world \<Rightarrow> world" where
  "startGamePhase i w =
     (case currentRound (gm w) of
        None \<Rightarrow> w
      | Some r \<Rightarrow>
          let g = (gm w)\<lparr>isGameActive := True, currentMultiplier := Num 1,
                         gameStartTime := Some (now i),
                         currentRound := Some (r\<lparr>status := active\<rparr>)\<rparr>
          in case safeSave_begin g of
               (g', None) \<Rightarrow> suspendE GamePhase_Return (w\<lparr>gm := g'\<rparr>)
             | (g', Some doc) \<Rightarrow> suspendE (GamePhase_Saving doc) (w\<lparr>gm := g'\<rparr>))"

definition startGamePhase_saved :: "world \<Rightarrow> world" where
  "startGamePhase_saved w =
     (let w1 = setTimer (Interval UpdateMultiplier)
                 (w\<lparr>gm := (gm w)\<lparr>multiplierInterval := Some (nextHandle w)\<rparr>\<rparr>)
      in case currentRound (gm w1) of
           None \<Rightarrow> w1
         | Some r \<Rightarrow> emit ''round:started'' [(''roundId'', JStr (roundId r))] w1)"

text \<open>\<open>updateMultiplier()\<close>, the tick.\<close>

definition updateMultiplier :: "input \<Rightarrow> world \<Rightarrow> world" where
  "updateMultiplier i w =
     (case currentRound (gm w) of
        None \<Rightarrow> w
      | Some r \<Rightarrow>
          if \<not> isGameActive (gm w) then w
          else
            let started = (case gameStartTime (gm w) of None \<Rightarrow> 0 | Some t \<Rightarrow> t);
                timeElapsed = num_div (Num (of_int (now i - started))) (Num 1000);
                growthFactor = Num (1 / 10);
                m = num_add (Num 1) (num_mul timeElapsed growthFactor);
                r' = r\<lparr>maxMultiplier := Math_max (num_or (maxMultiplier r) (Num 1)) m\<rparr>;
                w' = w\<lparr>gm := (gm w)\<lparr>currentMultiplier := m, currentRound := Some r'\<rparr>\<rparr>
            in if num_ge m (crashPoint r') then crashGame i w'
               else emit ''multiplier:update''
                      [(''roundId'', JStr (roundId r')),
                       (''multiplier'', JNum (toFixed_parsed 2 m))] w')"

text \<open>\<open>cashOut(playerId)\<close>. Up to its first await it checks the phase, finds the first
  bet of the player that is not cashed out, and settles it in place.\<close>

definition cashedOutBet :: "number \<Rightarrow> bet \<Rightarrow> bet" where
  "cashedOutBet multiplier b =
     (let cryptoPayout = num_mul (cryptoAmount b) multiplier;
          usdPayout = num_mul cryptoPayout (priceAtTime b)
      in b\<lparr>cashedOut := True,
           cashoutMultiplier := Some multiplier,
           payout := Some \<lparr>cryptoAmount_p = cryptoPayout, usdAmount_p = usdPayout\<rparr>\<rparr>)"

fun settleFirst :: "string \<Rightarrow> number \<Rightarrow> bet list \<Rightarrow> (bet list \<times> bet) option" where
  "settleFirst pid m [] = None"
| "settleFirst pid m (b # bs) =
     (if playerId b = pid \<and> \<not> cashedOut b then Some (cashedOutBet m b # bs, cashedOutBet m b)
      else case settleFirst pid m bs of
             None \<Rightarrow> None
           | Some (bs', b') \<Rightarrow> Some (b # bs', b'))"

definition cashOut_begin :: "gameManager \<Rightarrow> string \<Rightarrow> error + gameManager \<times> bet" where
  "cashOut_begin g pid =
     (case currentRound g of
        None \<Rightarrow> Inl CannotCashOut
      | Some r \<Rightarrow>
          if \<not> isGameActive g then Inl CannotCashOut
          else case settleFirst pid (currentMultiplier g) (bets r) of
                 None \<Rightarrow> Inl NoActiveBet
               | Some (bs', b') \<Rightarrow> Inr (g\<lparr>currentRound := Some (r\<lparr>bets := bs'\<rparr>)\<rparr>, b'))"

definition cashOut :: "string \<Rightarrow> world \<Rightarrow> world" where
  "cashOut pid w =
     (case cashOut_begin (gm w) pid of
        Inl err \<Rightarrow> settle pid (CashOutRejected err) w
      | Inr (g, b') \<Rightarrow> suspendP (CashOut_Find b' (currentMultiplier (gm w))) (w\<lparr>gm := g\<rparr>))"

definition cashOut_found :: "bet \<Rightarrow> number \<Rightarrow> world \<Rightarrow> world" where
  "cashOut_found b m w =
     (case players w (playerId b) of
        None \<Rightarrow> settle (playerId b) (CashOutRejected TypeError) w
      | Some wal \<Rightarrow>
          suspendP (CashOut_SavePlayer b m
                      (num_add (balanceOf wal (cryptocurrency b)) (num_mul (cryptoAmount b) m))) w)"

definition cashOut_savedPlayer :: "bet \<Rightarrow> number \<Rightarrow> number \<Rightarrow> input \<Rightarrow> world \<Rightarrow> world" where
  "cashOut_savedPlayer b m newBalance i w =
     (if \<not> saveOk i \<or> \<not> validates (cryptocurrency b) newBalance
      then settle (playerId b) (CashOutRejected SaveFailed) w
      else
        let w1 = w\<lparr>players := writeBalance (playerId b) (cryptocurrency b) newBalance (players w)\<rparr>
        in case safeSave_begin (gm w1) of
             (g, doc) \<Rightarrow> suspendP (CashOut_SaveRound b m doc) (w1\<lparr>gm := g\<rparr>))"

definition cashOut_finish :: "bet \<Rightarrow> number \<Rightarrow> gameRound option \<Rightarrow> input \<Rightarrow> world \<Rightarrow> world" where
  "cashOut_finish b m doc i w =
     (let w1 = (case doc of None \<Rightarrow> w | Some d \<Rightarrow> safeSave_end (saveOk i) d w) in
      case currentRound (gm w1) of
        None \<Rightarrow> settle (playerId b) (CashOutRejected TypeError) w1
      | Some r \<Rightarrow>
          settle (playerId b) (CashedOut m (payout b))
            (emit ''player:cashedout''
               [(''roundId'', JStr (roundId r)),
                (''playerId'', JStr (playerId b)),
                (''multiplier'', JNum (toFixed_parsed 2 m)),
                (''payout'',
                   JObj [(''crypto'', JNum (toFixed_parsed 8 (num_mul (cryptoAmount b) m))),
                         (''usd'', JNum (toFixed_parsed 2
                                     (num_mul (num_mul (cryptoAmount b) m) (priceAtTime b))))]),
                (''cryptocurrency'', JStr (cryptocurrency b))] w1))"

text \<open>\<open>placeBet(playerId, usdAmount, cryptocurrency)\<close>.\<close>

definition placeBet :: "env \<Rightarrow> input \<Rightarrow> string \<Rightarrow> number \<Rightarrow> string \<Rightarrow> world \<Rightarrow> world" where
  "placeBet e i pid usd cur w =
     (case currentRound (gm w) of
        None \<Rightarrow> settle pid (BetRejected BettingNotAllowed) w
      | Some r \<Rightarrow>
          if status r \<noteq> waiting then settle pid (BetRejected BettingNotAllowed) w
          else case getPrice_begin e (priceCache (gm w)) (now i) cur of
                 PriceDone (Returned p) cache' \<Rightarrow>
                   suspendP (PlaceBet_Find pid usd cur p) (w\<lparr>gm := (gm w)\<lparr>priceCache := cache'\<rparr>\<rparr>)
               | PriceDone (Thrown msg) cache' \<Rightarrow>
                   settle pid (BetRejected (PriceUnavailable msg))
                     (w\<lparr>gm := (gm w)\<lparr>priceCache := cache'\<rparr>\<rparr>)
               | PriceFetch coinId \<Rightarrow> suspendP (PlaceBet_Price pid usd cur coinId) w)"

definition placeBet_priced :: "string \<Rightarrow> number \<Rightarrow> string \<Rightarrow> input \<Rightarrow> world \<Rightarrow> world" where
  "placeBet_priced pid usd cur i w =
     (case getPrice_resume (priceCache (gm w)) (now i) cur (apiResponse i) of
        (Returned p, cache') \<Rightarrow>
          suspendP (PlaceBet_Find pid usd cur p) (w\<lparr>gm := (gm w)\<lparr>priceCache := cache'\<rparr>\<rparr>)
      | (Thrown msg, cache') \<Rightarrow>
          settle pid (BetRejected (PriceUnavailable msg)) (w\<lparr>gm := (gm w)\<lparr>priceCache := cache'\<rparr>\<rparr>))"

definition placeBet_found :: "string \<Rightarrow> number \<Rightarrow> string \<Rightarrow> number \<Rightarrow> input \<Rightarrow> world \<Rightarrow> world" where
  "placeBet_found pid usd cur p i w =
     (let amount = num_div usd p in
      case players w pid of
        None \<Rightarrow> settle pid (BetRejected InsufficientBalance) w
      | Some wal \<Rightarrow>
          if num_lt (balanceOf wal cur) amount then settle pid (BetRejected InsufficientBalance) w
          else
            let b = \<lparr>playerId = pid, usdAmount = usd, cryptoAmount = amount,
                     cryptocurrency = cur, priceAtTime = p,
                     transactionHash = newTransactionHash i\<rparr>
            in suspendP (PlaceBet_SavePlayer b (num_sub (balanceOf wal cur) amount)) w)"

definition placeBet_savedPlayer :: "betObject \<Rightarrow> number \<Rightarrow> input \<Rightarrow> world \<Rightarrow> world" where
  "placeBet_savedPlayer b newBalance i w =
     (if \<not> saveOk i \<or> \<not> validates (cryptocurrency b) newBalance
      then settle (playerId b) (BetRejected SaveFailed) w
      else
        let w1 = w\<lparr>players := writeBalance (playerId b) (cryptocurrency b) newBalance (players w)\<rparr>
        in case currentRound (gm w1) of
             None \<Rightarrow> settle (playerId b) (BetRejected TypeError) w1
           | Some r \<Rightarrow>
               (case safeSave_begin ((gm w1)\<lparr>currentRound := Some (r\<lparr>bets := bets r @ [castBet b]\<rparr>)\<rparr>) of
                  (g, doc) \<Rightarrow> suspendP (PlaceBet_SaveRound b doc) (w1\<lparr>gm := g\<rparr>)))"

definition placeBet_finish :: "betObject \<Rightarrow> gameRound option \<Rightarrow> input \<Rightarrow> world \<Rightarrow> world" where
  "placeBet_finish b doc i w =
     (let w1 = (case doc of None \<Rightarrow> w | Some d \<Rightarrow> safeSave_end (saveOk i) d w) in
      case currentRound (gm w1) of
        None \<Rightarrow> settle (playerId b) (BetRejected TypeError) w1
      | Some r \<Rightarrow>
          settle (playerId b) (BetPlaced b)
            (emit ''bet:placed''
               [(''roundId'', JStr (roundId r)),
                (''playerId'', JStr (playerId b)),
                (''usdAmount'', JNum (usdAmount b)),
                (''cryptocurrency'', JStr (cryptocurrency b))] w1))"

section \<open>Events and executions\<close>

text \<open>
  An event is a call from outside (\<open>stop\<close>, \<open>placeBet\<close>, \<open>cashOut\<close>), a timer that
  fires, or a suspended call that resumes. A timeout is gone once it has fired; an interval
  stays until it is cleared. An event that names no pending timer or task changes nothing.
\<close>

datatype event =
    Stop
  | PlaceBet string number string
  | CashOut string
  | Fire nat
  | ResumeEngine nat
  | ResumePlayer nat

definition runCallback ::
  "env \<Rightarrow> hmac_fn \<Rightarrow> hash_fn \<Rightarrow> input \<Rightarrow> callback \<Rightarrow> world \<Rightarrow> world" where
  "runCallback e H S i cb w =
     (case cb of
        StartGamePhase \<Rightarrow> startGamePhase i w
      | UpdateMultiplier \<Rightarrow> updateMultiplier i w
      | StartNewRound \<Rightarrow> startNewRound e H S i w)"

definition fire :: "env \<Rightarrow> hmac_fn \<Rightarrow> hash_fn \<Rightarrow> input \<Rightarrow> nat \<Rightarrow> world \<Rightarrow> world" where
  "fire e H S i h w =
     (case map_of (timers w) h of
        None \<Rightarrow> w
      | Some (Timeout cb) \<Rightarrow> runCallback e H S i cb (clearTimer h w)
      | Some (Interval cb) \<Rightarrow> runCallback e H S i cb w)"

definition afterEndRound ::
  "env \<Rightarrow> hmac_fn \<Rightarrow> hash_fn \<Rightarrow> input \<Rightarrow> caller \<Rightarrow> world \<Rightarrow> world" where
  "afterEndRound e H S i cl w =
     (case cl of
        FromCrashGame \<Rightarrow> crashGame_finish w
      | FromStartNewRound \<Rightarrow> startNewRound_create e H S i w)"

definition resumeEngine ::
  "env \<Rightarrow> hmac_fn \<Rightarrow> hash_fn \<Rightarrow> input \<Rightarrow> etask \<Rightarrow> world \<Rightarrow> world" where
  "resumeEngine e H S i t w =
     (case t of
        EndRound_Stats cl \<Rightarrow> endRound_save cl w
      | EndRound_Saving cl doc \<Rightarrow> afterEndRound e H S i cl (safeSave_end (saveOk i) doc w)
      | EndRound_Return cl \<Rightarrow> afterEndRound e H S i cl w
      | NewRound_Saving r \<Rightarrow> startNewRound_saved r i w
      | GamePhase_Saving doc \<Rightarrow> startGamePhase_saved (safeSave_end (saveOk i) doc w)
      | GamePhase_Return \<Rightarrow> startGamePhase_saved w)"

definition resumePlayer :: "input \<Rightarrow> ptask \<Rightarrow> world \<Rightarrow> world" where
  "resumePlayer i t w =
     (case t of
        PlaceBet_Price pid usd cur coinId \<Rightarrow> placeBet_priced pid usd cur i w
      | PlaceBet_Find pid usd cur p \<Rightarrow> placeBet_found pid usd cur p i w
      | PlaceBet_SavePlayer b newBalance \<Rightarrow> placeBet_savedPlayer b newBalance i w
      | PlaceBet_SaveRound b doc \<Rightarrow> placeBet_finish b doc i w
      | CashOut_Find b m \<Rightarrow> cashOut_found b m w
      | CashOut_SavePlayer b m newBalance \<Rightarrow> cashOut_savedPlayer b m newBalance i w
      | CashOut_SaveRound b m doc \<Rightarrow> cashOut_finish b m doc i w)"

definition dropNth :: "nat \<Rightarrow> 'a list \<Rightarrow> 'a list" where
  "dropNth k xs = take k xs @ drop (Suc k) xs"

definition exec :: "env \<Rightarrow> hmac_fn \<Rightarrow> hash_fn \<Rightarrow> input \<Rightarrow> event \<Rightarrow> world \<Rightarrow> world" where
  "exec e H S i ev w =
     (case ev of
        Stop \<Rightarrow> stop w
      | PlaceBet pid usd cur \<Rightarrow> placeBet e i pid usd cur w
      | CashOut pid \<Rightarrow> cashOut pid w
      | Fire h \<Rightarrow> fire e H S i h w
      | ResumeEngine k \<Rightarrow>
          if k < length (etasks w)
          then resumeEngine e H S i (etasks w ! k) (w\<lparr>etasks := dropNth k (etasks w)\<rparr>)
          else w
      | ResumePlayer k \<Rightarrow>
          if k < length (ptasks w)
          then resumePlayer i (ptasks w ! k) (w\<lparr>ptasks := dropNth k (ptasks w)\<rparr>)
          else w)"

text \<open>The server as server.js boots it: the constructor's fields, some players and rounds
  in the database, and one call of \<open>start()\<close>, which calls \<open>startNewRound\<close>.\<close>

definition newGameManager :: gameManager where
  "newGameManager =
     \<lparr>currentRound = None, multiplierInterval = None, isGameActive = False,
      currentMultiplier = Num 1, gameStartTime = None, isSaving = False,
      priceCache = Map.empty\<rparr>"

definition boot :: "players_db \<Rightarrow> rounds_db \<Rightarrow> world" where
  "boot ps rs =
     \<lparr>gm = newGameManager, players = ps, rounds = rs, timers = [], nextHandle = 0,
      etasks = [], ptasks = [], emitted = [], settled = []\<rparr>"

definition start :: "env \<Rightarrow> hmac_fn \<Rightarrow> hash_fn \<Rightarrow> input \<Rightarrow> world \<Rightarrow> world" where
  "start e H S i w = startNewRound e H S i w"

fun run :: "env \<Rightarrow> hmac_fn \<Rightarrow> hash_fn \<Rightarrow> (input \<times> event) list \<Rightarrow> world \<Rightarrow> world" where
  "run e H S [] w = w"
| "run e H S ((i, ev) # rest) w = run e H S rest (exec e H S i ev w)"

inductive reachable :: "env \<Rightarrow> hmac_fn \<Rightarrow> hash_fn \<Rightarrow> world \<Rightarrow> bool"
  for e :: env and H :: hmac_fn and S :: hash_fn where
  started: "reachable e H S (start e H S i (boot ps rs))"
| step: "reachable e H S w \<Longrightarrow> reachable e H S (exec e H S i ev w)"


datatype phase = Creating | Stalled | Betting | Activating | Ticking | Stopped | Crashing | Cooldown

fun phaseActive :: "phase \<Rightarrow> bool" where
  "phaseActive Activating = True"
| "phaseActive Ticking = True"
| "phaseActive Stopped = True"
| "phaseActive _ = False"

fun phaseStatus :: "phase \<Rightarrow> status" where
  "phaseStatus Creating = waiting"
| "phaseStatus Stalled = waiting"
| "phaseStatus Betting = waiting"
| "phaseStatus Activating = active"
| "phaseStatus Ticking = active"
| "phaseStatus Stopped = active"
| "phaseStatus Crashing = crashed"
| "phaseStatus Cooldown = crashed"

definition inPhase :: "phase \<Rightarrow> world \<Rightarrow> bool" where
  "inPhase ph w =
     (case ph of
        Creating \<Rightarrow> (\<exists>d. etasks w = [NewRound_Saving d]) \<and> timers w = []
      | Stalled \<Rightarrow> etasks w = [] \<and> timers w = []
      | Betting \<Rightarrow>
          etasks w = []
          \<and> (\<exists>h. timers w = [(h, Timeout StartGamePhase)] \<and> multiplierInterval (gm w) \<noteq> Some h)
      | Activating \<Rightarrow>
          (etasks w = [GamePhase_Return] \<or> (\<exists>d. etasks w = [GamePhase_Saving d]))
          \<and> timers w = [] \<and> currentMultiplier (gm w) = Num 1
      | Ticking \<Rightarrow>
          etasks w = []
          \<and> (\<exists>h. timers w = [(h, Interval UpdateMultiplier)] \<and> multiplierInterval (gm w) = Some h)
      | Stopped \<Rightarrow> etasks w = [] \<and> timers w = []
      | Crashing \<Rightarrow>
          (etasks w = [EndRound_Stats FromCrashGame] \<or> etasks w = [EndRound_Return FromCrashGame]
           \<or> (\<exists>d. etasks w = [EndRound_Saving FromCrashGame d]))
          \<and> timers w = []
      | Cooldown \<Rightarrow>
          etasks w = []
          \<and> (\<exists>h. timers w = [(h, Timeout StartNewRound)] \<and> multiplierInterval (gm w) \<noteq> Some h))"

definition phaseInv :: "phase \<Rightarrow> world \<Rightarrow> bool" where
  "phaseInv ph w =
     (\<exists>r. currentRound (gm w) = Some r
        \<and> inPhase ph w
        \<and> isGameActive (gm w) = phaseActive ph
        \<and> status r = phaseStatus ph
        \<and> (\<forall>h. multiplierInterval (gm w) = Some h \<longrightarrow> h < nextHandle w)
        \<and> (isGameActive (gm w) \<longrightarrow>
              currentMultiplier (gm w) = Num 1
            \<or> \<not> num_ge (currentMultiplier (gm w)) (crashPoint r)))"

definition engineInv :: "world \<Rightarrow> bool" where
  "engineInv w = (\<exists>ph. phaseInv ph w)"

definition crashAboveOne :: "env \<Rightarrow> hmac_fn \<Rightarrow> bool" where
  "crashAboveOne e H = (\<forall>sd rid. \<not> num_ge (Num 1) (calculateCrashPoint e H sd rid))"

definition tickValue :: "input \<Rightarrow> world \<Rightarrow> number" where
  "tickValue i w =
     num_add (Num 1)
       (num_mul (num_div (Num (of_int (now i - (case gameStartTime (gm w) of None \<Rightarrow> 0 | Some t \<Rightarrow> t))))
                   (Num 1000))
          (Num (1 / 10)))"

definition control ::
  "world \<Rightarrow> etask list \<times> (nat \<times> timer) list \<times> nat \<times> nat option \<times> bool \<times> number \<times> (status \<times> number) option" where
  "control w =
     (etasks w, timers w, nextHandle w, multiplierInterval (gm w), isGameActive (gm w),
      currentMultiplier (gm w), map_option (\<lambda>r. (status r, crashPoint r)) (currentRound (gm w)))"

definition betKept :: "world \<Rightarrow> bet \<Rightarrow> bet \<Rightarrow> bool" where
  "betKept w b b' =
     (b' = b \<or> (isGameActive (gm w) \<and> \<not> cashedOut b
                 \<and> b' = cashedOutBet (currentMultiplier (gm w)) b))"

definition roundKept :: "world \<Rightarrow> gameRound \<Rightarrow> gameRound \<Rightarrow> bool" where
  "roundKept w r r' =
     (roundId r' = roundId r \<and> crashPoint r' = crashPoint r \<and> seed r' = seed r
      \<and> seedHash r' = seedHash r
      \<and> list_all2 (betKept w) (bets r) (take (length (bets r)) (bets r'))
      \<and> list_all (\<lambda>b. \<not> cashedOut b) (drop (length (bets r)) (bets r')))"

definition roundFresh :: "gameRound \<Rightarrow> bool" where
  "roundFresh r' = (bets r' = [] \<and> status r' = waiting)"

definition core :: "world \<Rightarrow> (string \<times> number \<times> string \<times> string \<times> bet list) option" where
  "core w = map_option (\<lambda>r. (roundId r, crashPoint r, seed r, seedHash r, bets r)) (currentRound (gm w))"

definition keptOrFresh :: "world \<Rightarrow> world \<Rightarrow> bool" where
  "keptOrFresh w w' =
     (core w' = core w \<or> (\<exists>r'. currentRound (gm w') = Some r' \<and> roundFresh r'))"

section \<open>Concrete inputs\<close>

text \<open>An environment with no variable set, and a digest function that returns 32 zero
  bytes, for evaluating the model.\<close>

definition zeroDigest :: hmac_fn where
  "zeroDigest k m = replicate 32 0"

definition unsetEnv :: env where
  "unsetEnv = \<lparr>PROVABLY_FAIR_SECRET = None, MAX_CRASH_MULTIPLIER = NaN,
     MIN_CRASH_MULTIPLIER = NaN, PRICE_CACHE_DURATION = NaN\<rparr>"

text \<open>Every bet of the round that is cashed out carries a multiplier, and one that is not
  greater than or equal to the crash point.\<close>

definition settledBelow :: "gameRound \<Rightarrow> bool" where
  "settledBelow r =
     list_all (\<lambda>b. cashedOut b \<longrightarrow>
                 (case cashoutMultiplier b of
                    None \<Rightarrow> False
                  | Some m \<Rightarrow> \<not> num_ge m (crashPoint r))) (bets r)"

text \<open>The same with the multiplier 1 let through, at which a round starts.\<close>

definition settledInPlay :: "gameRound \<Rightarrow> bool" where
  "settledInPlay r =
     list_all (\<lambda>b. cashedOut b \<longrightarrow>
                 (case cashoutMultiplier b of
                    None \<Rightarrow> False
                  | Some m \<Rightarrow> m = Num 1 \<or> \<not> num_ge m (crashPoint r))) (bets r)"

definition betsInv :: "world \<Rightarrow> bool" where
  "betsInv w = (case currentRound (gm w) of None \<Rightarrow> True | Some r \<Rightarrow> settledInPlay r)"

definition zeroHash :: hash_fn where
  "zeroHash m = replicate 32 0"

definition inputAt :: "int \<Rightarrow> input" where
  "inputAt t = \<lparr>now = t, saveOk = True, apiResponse = ApiError, newRoundId = ''round_1'',
     newSeed = ''5eed'', newTransactionHash = ''tx''\<rparr>"

definition alice :: players_db where
  "alice = [''alice'' \<mapsto> \<lparr>BTC = Num 0, ETH = Num 0, USDT = Num 100\<rparr>]"

definition booted :: world where
  "booted = start unsetEnv zeroDigest zeroHash (inputAt 0) (boot alice Map.empty)"

definition crashTrace :: "(input \<times> event) list" where
  "crashTrace = [(inputAt 1, ResumeEngine 0), (inputAt 2, Fire 0), (inputAt 3, ResumeEngine 0),
                 (inputAt 1000, Fire 1)]"

definition unsettled :: "string \<Rightarrow> gameManager \<Rightarrow> nat" where
  "unsettled pid g =
     (case currentRound g of
        None \<Rightarrow> 0
      | Some r \<Rightarrow> length (filter (\<lambda>b. playerId b = pid \<and> \<not> cashedOut b) (bets r)))"

definition twoBetsTrace :: "(input \<times> event) list" where
  "twoBetsTrace =
     [(inputAt 1, ResumeEngine 0),
      (inputAt 2, PlaceBet ''alice'' (Num 50) ''USDT''),
      (inputAt 3, ResumePlayer 0), (inputAt 4, ResumePlayer 0), (inputAt 5, ResumePlayer 0),
      (inputAt 6, PlaceBet ''alice'' (Num 50) ''USDT''),
      (inputAt 7, ResumePlayer 0), (inputAt 8, ResumePlayer 0), (inputAt 9, ResumePlayer 0)]"

definition twoCashOutsTrace :: "(input \<times> event) list" where
  "twoCashOutsTrace =
     twoBetsTrace @
     [(inputAt 3001, Fire 0), (inputAt 3002, ResumeEngine 0),
      (inputAt 3003, CashOut ''alice''),
      (inputAt 3004, ResumePlayer 0), (inputAt 3005, ResumePlayer 0), (inputAt 3006, ResumePlayer 0),
      (inputAt 3007, CashOut ''alice''),
      (inputAt 3008, ResumePlayer 0), (inputAt 3009, ResumePlayer 0), (inputAt 3010, ResumePlayer 0)]"

definition aliceBet :: betObject where
  "aliceBet = \<lparr>playerId = ''alice'', usdAmount = Num 50, cryptoAmount = Num 50,
     cryptocurrency = ''USDT'', priceAtTime = Num 1, transactionHash = ''tx''\<rparr>"

definition oneBetActiveTrace :: "(input \<times> event) list" where
  "oneBetActiveTrace =
     [(inputAt 1, ResumeEngine 0),
      (inputAt 2, PlaceBet ''alice'' (Num 50) ''USDT''),
      (inputAt 3, ResumePlayer 0), (inputAt 4, ResumePlayer 0), (inputAt 5, ResumePlayer 0),
      (inputAt 3001, Fire 0), (inputAt 3002, ResumeEngine 0)]"

definition oneBetActive :: world where
  "oneBetActive = run unsetEnv zeroDigest zeroHash oneBetActiveTrace booted"

definition oneBetCashedOut :: world where
  "oneBetCashedOut = exec unsetEnv zeroDigest zeroHash (inputAt 3003) (CashOut ''alice'') oneBetActive"

definition placeBetAlone ::
  "env \<Rightarrow> hmac_fn \<Rightarrow> hash_fn \<Rightarrow> input \<Rightarrow> string \<Rightarrow> number \<Rightarrow> string \<Rightarrow> world \<Rightarrow> world" where
  "placeBetAlone e H S i pid usd cur w =
     (let n = length (ptasks w) in
      run e H S [(i, PlaceBet pid usd cur), (i, ResumePlayer n), (i, ResumePlayer n),
                 (i, ResumePlayer n), (i, ResumePlayer n)] w)"

definition betOf :: "input \<Rightarrow> string \<Rightarrow> number \<Rightarrow> string \<Rightarrow> number \<Rightarrow> betObject" where
  "betOf i pid usd cur p =
     \<lparr>playerId = pid, usdAmount = usd, cryptoAmount = num_div usd p, cryptocurrency = cur,
      priceAtTime = p, transactionHash = newTransactionHash i\<rparr>"

text \<open>From the price on: the rest of an uninterrupted \<open>placeBet\<close>.\<close>

definition placeBetRest :: "env \<Rightarrow> hmac_fn \<Rightarrow> hash_fn \<Rightarrow> input \<Rightarrow> nat \<Rightarrow> world \<Rightarrow> world" where
  "placeBetRest e H S i n w =
     run e H S [(i, ResumePlayer n), (i, ResumePlayer n), (i, ResumePlayer n)] w"

definition withCache :: "priceCache \<Rightarrow> world \<Rightarrow> world" where
  "withCache c w = w\<lparr>gm := (gm w)\<lparr>priceCache := c\<rparr>\<rparr>"

definition oneBetTrace :: "(input \<times> event) list" where
  "oneBetTrace =
     [(inputAt 1, ResumeEngine 0),
      (inputAt 2, PlaceBet ''alice'' (Num 50) ''USDT''),
      (inputAt 3, ResumePlayer 0), (inputAt 4, ResumePlayer 0), (inputAt 5, ResumePlayer 0)]"

definition oneBetWaiting :: world where
  "oneBetWaiting = run unsetEnv zeroDigest zeroHash oneBetTrace booted"

text \<open>Every balance in the collection satisfies the schema.\<close>

definition walletsValid :: "players_db \<Rightarrow> bool" where
  "walletsValid db =
     (\<forall>pid wal. db pid = Some wal \<longrightarrow>
        validBalance (BTC wal) \<and> validBalance (ETH wal) \<and> validBalance (USDT wal))"

definition waitingRound :: world where
  "waitingRound = run unsetEnv zeroDigest zeroHash [(inputAt 1, ResumeEngine 0)] booted"

definition bet60 :: betObject where
  "bet60 = \<lparr>playerId = ''alice'', usdAmount = Num 60, cryptoAmount = Num 60,
     cryptocurrency = ''USDT'', priceAtTime = Num 1, transactionHash = ''tx''\<rparr>"

definition lostUpdateTrace :: "(input \<times> event) list" where
  "lostUpdateTrace =
     [(inputAt 1, ResumeEngine 0),
      (inputAt 2, PlaceBet ''alice'' (Num 60) ''USDT''),
      (inputAt 3, PlaceBet ''alice'' (Num 60) ''USDT''),
      (inputAt 4, ResumePlayer 0), (inputAt 5, ResumePlayer 0),
      (inputAt 6, ResumePlayer 0), (inputAt 7, ResumePlayer 0),
      (inputAt 8, ResumePlayer 0), (inputAt 9, ResumePlayer 0)]"

definition findPendingTrace :: "(input \<times> event) list" where
  "findPendingTrace =
     [(inputAt 1, ResumeEngine 0),
      (inputAt 2, PlaceBet ''alice'' (Num 60) ''USDT'')]"

definition debitPendingTrace :: "(input \<times> event) list" where
  "debitPendingTrace =
     [(inputAt 1, ResumeEngine 0),
      (inputAt 2, PlaceBet ''alice'' (Num 60) ''USDT''),
      (inputAt 3, ResumePlayer 0)]"

definition stopWaitingTrace :: "(input \<times> event) list" where
  "stopWaitingTrace = [(inputAt 1, ResumeEngine 0), (inputAt 2, Stop)]"

definition afterStopTrace :: "(input \<times> event) list" where
  "afterStopTrace = [(inputAt 3001, Fire 0), (inputAt 3002, ResumeEngine 0), (inputAt 3051, Fire 1)]"

definition stopCooldownTrace :: "(input \<times> event) list" where
  "stopCooldownTrace = crashTrace @ [(inputAt 1001, ResumeEngine 0), (inputAt 1002, Stop)]"

definition tickingTrace :: "(input \<times> event) list" where
  "tickingTrace = [(inputAt 1, ResumeEngine 0), (inputAt 3001, Fire 0), (inputAt 3002, ResumeEngine 0)]"

definition cooldownTrace :: "(input \<times> event) list" where
  "cooldownTrace = crashTrace @ [(inputAt 1001, ResumeEngine 0)]"

definition laterTrace :: "(input \<times> event) list" where
  "laterTrace = [(inputAt 9000, Fire 1), (inputAt 9001, CashOut ''alice''),
                 (inputAt 9002, ResumeEngine 0), (inputAt 9003, Fire 2)]"

definition supported :: "string \<Rightarrow> bool" where
  "supported c = (toUpperCase c \<in> set [''BTC'', ''ETH'', ''USDT''])"

fun apiOk :: "api_response \<Rightarrow> bool" where
  "apiOk (ApiData (Some (Num x))) = (0 \<le> x)"
| "apiOk (ApiData (Some _)) = False"
| "apiOk _ = True"

datatype cacheStep = BeginStep int string | ResumeStep int string api_response | ClearStep

fun stepOk :: "cacheStep \<Rightarrow> bool" where
  "stepOk (ResumeStep t c a) = (apiOk a \<and> toUpperCase c \<noteq> ''USDT'')"
| "stepOk _ = True"

fun applyStep :: "env \<Rightarrow> priceCache \<Rightarrow> cacheStep \<Rightarrow> priceCache" where
  "applyStep e cache (BeginStep t c) =
     (case getPrice_begin e cache t c of PriceDone r cache' \<Rightarrow> cache' | PriceFetch coinId \<Rightarrow> cache)"
| "applyStep e cache (ResumeStep t c a) = snd (getPrice_resume cache t c a)"
| "applyStep e cache ClearStep = Map.empty"

definition cacheAfter :: "env \<Rightarrow> cacheStep list \<Rightarrow> priceCache" where
  "cacheAfter e hist = foldl (applyStep e) Map.empty hist"

definition cacheOk :: "priceCache \<Rightarrow> bool" where
  "cacheOk cache =
     (\<forall>k ent. cache k = Some ent \<longrightarrow> (\<exists>p. price ent = Num p \<and> 0 < p \<and> (k = ''USDT'' \<longrightarrow> p = 1)))"

definition fallbackOf :: "string \<Rightarrow> number" where
  "fallbackOf c =
     (if toUpperCase c = ''BTC'' then Num 45000
      else if toUpperCase c = ''ETH'' then Num 3000 else Num 1)"

fun priceTaskOk :: "ptask \<Rightarrow> bool" where
  "priceTaskOk (PlaceBet_Price pid usd cur coinId) = (supported cur \<and> toUpperCase cur \<noteq> ''USDT'')"
| "priceTaskOk _ = True"

definition apiOkAt :: "input \<times> event \<Rightarrow> bool" where
  "apiOkAt x = apiOk (apiResponse (fst x))"

definition pricesInv :: "world \<Rightarrow> bool" where
  "pricesInv w = (cacheOk (priceCache (gm w)) \<and> list_all priceTaskOk (ptasks w))"

text \<open>The fields of a response, and the answer of \<open>/verify\<close> under a key.\<close>

fun statusCode :: "response \<Rightarrow> nat" where
  "statusCode (Response code body) = code"

fun bodyOf :: "response \<Rightarrow> payload" where
  "bodyOf (Response code body) = body"

text \<open>The request passes the checks that come before the seed is hashed: the three
  fields are there and truthy, the round is stored, and it is stored as crashed.\<close>

definition verifiable :: "rounds_db \<Rightarrow> verify_body \<Rightarrow> string \<Rightarrow> string \<Rightarrow> number \<Rightarrow> gameRound \<Rightarrow> bool" where
  "verifiable db body rid sd x rd =
     (body_roundId body = Some rid \<and> body_seed body = Some sd
      \<and> body_expectedCrashPoint body = Some x
      \<and> rid \<noteq> [] \<and> sd \<noteq> [] \<and> truthy x \<and> db rid = Some rd \<and> status rd = crashed)"

text \<open>The comparison of \<open>/verify\<close>: the recomputed crash point against the stored one.\<close>

definition withinTolerance :: "number \<Rightarrow> number \<Rightarrow> bool" where
  "withinTolerance a b = num_lt (Math_abs (num_sub a b)) (Num (1 / 100))"


text \<open>The round documents that a suspended call holds for its \<open>save()\<close>.\<close>

fun etaskDoc :: "etask \<Rightarrow> gameRound option" where
  "etaskDoc (EndRound_Saving cl d) = Some d"
| "etaskDoc (NewRound_Saving d) = Some d"
| "etaskDoc (GamePhase_Saving d) = Some d"
| "etaskDoc _ = None"

fun ptaskDoc :: "ptask \<Rightarrow> gameRound option" where
  "ptaskDoc (PlaceBet_SaveRound b doc) = doc"
| "ptaskDoc (CashOut_SaveRound b m doc) = doc"
| "ptaskDoc _ = None"

text \<open>The round in memory and the documents on their way to the database satisfy \<open>P\<close>,
  and the stored ones satisfy \<open>Q\<close>, each with the id it is stored under.\<close>

definition holds :: "(gameRound \<Rightarrow> bool) \<Rightarrow> gameRound option \<Rightarrow> bool" where
  "holds P d = (case d of None \<Rightarrow> True | Some r \<Rightarrow> P r)"

definition docsInv :: "(gameRound \<Rightarrow> bool) \<Rightarrow> (string \<Rightarrow> gameRound \<Rightarrow> bool) \<Rightarrow> world \<Rightarrow> bool" where
  "docsInv P Q w =
     (holds P (currentRound (gm w))
      \<and> list_all (\<lambda>t. holds P (etaskDoc t)) (etasks w)
      \<and> list_all (\<lambda>t. holds P (ptaskDoc t)) (ptasks w)
      \<and> (\<forall>rid. holds (Q rid) (rounds w rid)))"

text \<open>\<open>P\<close> survives what the engine does to a round (a tick, a bet or a cash-out, the
  start of the game phase, the end of the round), and a document that satisfies \<open>P\<close> may
  be stored.\<close>

definition stable :: "(gameRound \<Rightarrow> bool) \<Rightarrow> (string \<Rightarrow> gameRound \<Rightarrow> bool) \<Rightarrow> bool" where
  "stable P Q =
     (\<forall>r. P r \<longrightarrow>
        (\<forall>m. P (r\<lparr>maxMultiplier := m\<rparr>)) \<and> (\<forall>bs. P (r\<lparr>bets := bs\<rparr>))
        \<and> P (r\<lparr>status := active\<rparr>) \<and> (\<forall>t. P (r\<lparr>endTime := Some t, status := crashed\<rparr>))
        \<and> Q (roundId r) r)"

text \<open>The round that \<open>startNewRound\<close> creates.\<close>

definition newRound :: "env \<Rightarrow> hmac_fn \<Rightarrow> hash_fn \<Rightarrow> input \<Rightarrow> gameRound" where
  "newRound e H S i =
     \<lparr>roundId = newRoundId i, startTime = now i, endTime = None,
      crashPoint = calculateCrashPoint e H (newSeed i) (newRoundId i),
      seed = newSeed i, seedHash = digest_hex (S (newSeed i)),
      bets = [], status = waiting, maxMultiplier = Num 1\<rparr>"

text \<open>An environment whose maximal crash point is 1, and a cash-out with its three
  continuations.\<close>

definition cappedEnv :: env where
  "cappedEnv = \<lparr>PROVABLY_FAIR_SECRET = None, MAX_CRASH_MULTIPLIER = Num 1,
     MIN_CRASH_MULTIPLIER = NaN, PRICE_CACHE_DURATION = NaN\<rparr>"

definition cashOutTrace :: "(input \<times> event) list" where
  "cashOutTrace =
     [(inputAt 3003, CashOut ''alice''),
      (inputAt 3004, ResumePlayer 0), (inputAt 3005, ResumePlayer 0), (inputAt 3006, ResumePlayer 0)]"

text \<open>The three fields of the request to \<open>/verify\<close> are there and truthy.\<close>

definition presented :: "verify_body \<Rightarrow> string \<Rightarrow> string \<Rightarrow> number \<Rightarrow> bool" where
  "presented body rid sd x =
     (body_roundId body = Some rid \<and> body_seed body = Some sd
      \<and> body_expectedCrashPoint body = Some x \<and> rid \<noteq> [] \<and> sd \<noteq> [] \<and> truthy x)"

text \<open>A round as \<open>startNewRound\<close> makes it: its crash point and its seed hash are
  computed from its seed and its id. A collection of such rounds, each under its id.\<close>

definition made :: "env \<Rightarrow> hmac_fn \<Rightarrow> hash_fn \<Rightarrow> gameRound \<Rightarrow> bool" where
  "made e H S r =
     (crashPoint r = calculateCrashPoint e H (seed r) (roundId r)
      \<and> seedHash r = digest_hex (S (seed r)))"

definition storedMade :: "env \<Rightarrow> hmac_fn \<Rightarrow> hash_fn \<Rightarrow> rounds_db \<Rightarrow> bool" where
  "storedMade e H S db = (\<forall>rid rd. db rid = Some rd \<longrightarrow> made e H S rd \<and> roundId rd = rid)"

text \<open>The first four bytes of two digests, as numbers, lie far enough apart for the two
  crash points to differ by 0.01 or more: the first exceeds the second by more than a
  thousandth of the range, and the crash point of the second is not within 0.01 of the
  upper bound.\<close>

definition farApart :: "real \<Rightarrow> real \<Rightarrow> nat \<Rightarrow> nat \<Rightarrow> bool" where
  "farApart lo hi n1 n2 =
     (n2 + 4294968 \<le> n1 \<and> n1 < 4294967295
      \<and> lo + 10 * real n2 / (4294967295 - real n2) + 1 / 100 \<le> hi)"

text \<open>The request that sends back what the engine published for a round.\<close>

definition roundTrip :: "string \<Rightarrow> gameRound \<Rightarrow> verify_body" where
  "roundTrip rid rd =
     \<lparr>body_roundId = Some rid, body_seed = Some (seed rd),
      body_expectedCrashPoint = Some (crashPoint rd)\<rparr>"

text \<open>The values of HMAC-SHA256 under the keys \<open>secret\<close>, \<open>default-secret\<close> and
  \<open>fairness\<close> for the message \<open>5eedround_1\<close>, and of SHA-256 for \<open>5eed\<close>; elsewhere 32
  zero bytes.\<close>

definition hmacAt :: hmac_fn where
  "hmacAt k m =
     (if k = ''secret'' \<and> m = ''5eedround_1''
      then [48, 187, 233, 196, 140, 67, 78, 5, 1, 243, 26, 50, 217, 212, 21, 68, 166, 240, 206,
            218, 201, 21, 41, 68, 222, 73, 177, 249, 235, 97, 115, 146]
      else if k = ''default-secret'' \<and> m = ''5eedround_1''
      then [14, 74, 196, 181, 22, 210, 201, 126, 143, 145, 185, 157, 34, 86, 244, 5, 193, 6, 235,
            86, 198, 56, 238, 74, 234, 48, 20, 27, 5, 198, 138, 195]
      else if k = ''fairness'' \<and> m = ''5eedround_1''
      then [63, 32, 99, 48, 136, 86, 225, 63, 11, 69, 197, 176, 242, 205, 220, 125, 41, 33, 239,
            113, 0, 112, 15, 252, 69, 187, 47, 222, 177, 129, 124, 148]
      else replicate 32 0)"

definition sha256At :: hash_fn where
  "sha256At m =
     (if m = ''5eed''
      then [37, 62, 44, 105, 252, 7, 210, 207, 111, 131, 199, 155, 11, 248, 27, 145, 34, 200, 22,
            87, 52, 119, 152, 108, 168, 124, 110, 249, 7, 165, 42, 83]
      else replicate 32 0)"

text \<open>An environment with the secret set, and a run in which the round crashes at the tick
  40 seconds into the game phase, at the multiplier 5.\<close>

definition secretEnv :: env where
  "secretEnv = \<lparr>PROVABLY_FAIR_SECRET = Some ''fairness'', MAX_CRASH_MULTIPLIER = NaN,
     MIN_CRASH_MULTIPLIER = NaN, PRICE_CACHE_DURATION = NaN\<rparr>"

definition lateCrashTrace :: "(input \<times> event) list" where
  "lateCrashTrace =
     [(inputAt 1, ResumeEngine 0), (inputAt 2, Fire 0), (inputAt 3, ResumeEngine 0),
      (inputAt 40002, Fire 1), (inputAt 40003, ResumeEngine 0)]"

definition lateRound :: "hash_fn \<Rightarrow> real \<Rightarrow> gameRound" where
  "lateRound S c =
     \<lparr>roundId = ''round_1'', startTime = 0, endTime = Some 40002, crashPoint = Num c,
      seed = ''5eed'', seedHash = digest_hex (S ''5eed''), bets = [], status = crashed,
      maxMultiplier = Num 5\<rparr>"


section \<open>The digest as a number\<close>

lemma hexChar_table:
  "\<forall>n \<in> set [0..<16]. digitValue (hexChar n) = Some n \<and> \<not> isWhiteSpace (hexChar n)
      \<and> hexChar n \<noteq> CHR ''-'' \<and> hexChar n \<noteq> CHR ''+''
      \<and> hexChar n \<noteq> CHR ''x'' \<and> hexChar n \<noteq> CHR ''X''"
  by code_simp

lemma digitValue_hexChar: "n < 16 \<Longrightarrow> digitValue (hexChar n) = Some n"
  using hexChar_table by simp

lemma hexChar_plain:
  "n < 16 \<Longrightarrow> \<not> isWhiteSpace (hexChar n) \<and> hexChar n \<noteq> CHR ''-'' \<and> hexChar n \<noteq> CHR ''+''
      \<and> hexChar n \<noteq> CHR ''x'' \<and> hexChar n \<noteq> CHR ''X''"
  using hexChar_table by simp

lemma digest_hex_Cons:
  "digest_hex (b # bs) = hexChar (unat b div 16) # hexChar (unat b mod 16) # digest_hex bs"
  by (simp add: digest_hex_def)

lemma digest_hex_Nil: "digest_hex [] = []"
  by (simp add: digest_hex_def)

lemma byte_hi: "unat (b :: 8 word) div 16 < 16"
proof -
  have "unat b < 256" using unsigned_less [of b] by simp
  then show ?thesis by simp
qed

lemma byte_lo: "unat (b :: 8 word) mod 16 < 16"
  by simp

lemma take_digest_hex: "take (2 * n) (digest_hex bs) = digest_hex (take n bs)"
proof (induction bs arbitrary: n)
  case Nil
  then show ?case by (simp add: digest_hex_Nil)
next
  case (Cons b bs)
  show ?case
  proof (cases n)
    case 0
    then show ?thesis by (simp add: digest_hex_Nil)
  next
    case (Suc m)
    then show ?thesis using Cons.IH [of m] by (simp add: digest_hex_Cons)
  qed
qed

lemma digest_hex_digits: "\<forall>c \<in> set (digest_hex bs). digitValue c \<noteq> None"
  by (induction bs) (simp_all add: digest_hex_Nil digest_hex_Cons digitValue_hexChar byte_hi)

lemma foldl_digest_hex:
  "foldl (\<lambda>acc c. acc * 16 + the (digitValue c)) a (digest_hex bs)
     = foldl (\<lambda>acc b. acc * 256 + unat b) a bs"
proof (induction bs arbitrary: a)
  case Nil
  then show ?case by (simp add: digest_hex_Nil)
next
  case (Cons b bs)
  let ?f = "\<lambda>acc c. acc * 16 + the (digitValue c)"
  let ?g = "\<lambda>acc (b :: 8 word). acc * 256 + unat b"
  have step: "(a * 16 + unat b div 16) * 16 + unat b mod 16 = a * 256 + unat b"
    by presburger
  have "foldl ?f a (digest_hex (b # bs))
      = foldl ?f ((a * 16 + unat b div 16) * 16 + unat b mod 16) (digest_hex bs)"
    by (simp only: digest_hex_Cons foldl_Cons digitValue_hexChar [OF byte_hi]
          digitValue_hexChar [OF byte_lo] option.sel)
  also have "\<dots> = foldl ?g ((a * 16 + unat b div 16) * 16 + unat b mod 16) bs"
    by (rule Cons.IH)
  also have "\<dots> = foldl ?g (a * 256 + unat b) bs"
    by (simp only: step)
  finally show ?case by simp
qed

lemma parseInt16_digest_hex:
  assumes "bs \<noteq> []"
  shows "parseInt16 (digest_hex bs) = Num (real (be_uint bs))"
proof -
  obtain b bs' where bs: "bs = b # bs'" using assms by (cases bs) auto
  let ?s = "digest_hex bs"
  have hd: "?s = hexChar (unat b div 16) # hexChar (unat b mod 16) # digest_hex bs'"
    by (simp add: bs digest_hex_Cons)
  have p1: "dropWhile isWhiteSpace ?s = ?s"
    by (simp add: hd hexChar_plain byte_hi)
  have p2: "take 1 ?s \<noteq> ''-''" "take 1 ?s \<noteq> ''+''"
    by (simp_all add: hd hexChar_plain byte_hi)
  have p3: "take 2 ?s \<noteq> ''0x''" "take 2 ?s \<noteq> ''0X''"
    by (simp_all add: hd hexChar_plain byte_hi)
  have p4: "takeWhile (\<lambda>c. digitValue c \<noteq> None) ?s = ?s"
    using digest_hex_digits [of bs] by (simp add: takeWhile_eq_all_conv)
  have p5: "?s \<noteq> []" by (simp add: hd)
  show ?thesis
    by (simp only: parseInt16_def Let_def p1 p2 p3 p4 p5 foldl_digest_hex be_uint_def
          simp_thms if_False if_True)
qed

lemma be_uint_bound_aux:
  "foldl (\<lambda>acc b. acc * 256 + unat (b :: 8 word)) a bs < (a + 1) * 256 ^ length bs"
proof (induction bs arbitrary: a)
  case Nil
  then show ?case by simp
next
  case (Cons b bs)
  have "unat b < 256" using unsigned_less [of b] by simp
  then have "a * 256 + unat b + 1 \<le> (a + 1) * 256" by simp
  then have "(a * 256 + unat b + 1) * 256 ^ length bs \<le> (a + 1) * 256 * 256 ^ length bs"
    by (rule mult_le_mono1)
  have "(a + 1) * 256 ^ length (b # bs) = ((a + 1) * 256) * 256 ^ length bs"
    by (simp only: list.size power_Suc mult.assoc add_Suc_right Nat.add_0_right length_Cons)
  then have le: "(a * 256 + unat b + 1) * 256 ^ length bs \<le> (a + 1) * 256 ^ length (b # bs)"
    using \<open>(a * 256 + unat b + 1) * 256 ^ length bs \<le> (a + 1) * 256 * 256 ^ length bs\<close>
    by (simp only:)
  have "foldl (\<lambda>acc b. acc * 256 + unat (b :: 8 word)) a (b # bs)
      = foldl (\<lambda>acc b. acc * 256 + unat (b :: 8 word)) (a * 256 + unat b) bs"
    by simp
  also have "\<dots> < (a * 256 + unat b + 1) * 256 ^ length bs"
    by (rule Cons.IH)
  also note le
  finally show ?case .
qed

lemma be_uint_bound: "be_uint bs < 256 ^ length bs"
  using be_uint_bound_aux [of 0 bs] by (simp add: be_uint_def)

lemma hashNum_eq:
  assumes "4 \<le> length d"
  shows "parseInt16 (take 8 (digest_hex d)) = Num (real (be_uint (take 4 d)))"
proof -
  have "take 8 (digest_hex d) = digest_hex (take 4 d)"
    using take_digest_hex [of 4 d] by simp
  moreover have "take 4 d \<noteq> []" using assms by auto
  ultimately show ?thesis by (simp add: parseInt16_digest_hex)
qed

lemma hashNum_le: "4 \<le> length d \<Longrightarrow> be_uint (take 4 d) \<le> 4294967295"
  using be_uint_bound [of "take 4 d"] by simp

section \<open>The crash point is the reference definition, within its bounds\<close>

lemma num_or_not_NaN: "b \<noteq> NaN \<Longrightarrow> num_or a b \<noteq> NaN"
  by (cases a) (auto simp: num_or_def)

lemma crash_formula_range:
  assumes "0 \<le> x" and "num_ge hi lo" and "lo \<noteq> NegInf" and "lo \<noteq> NaN"
  shows "num_ge (Math_min (Math_max (num_add lo (num_div (Math_log (Num x)) (Num (- (1 / 10))))) lo) hi) lo
       \<and> num_ge hi (Math_min (Math_max (num_add lo (num_div (Math_log (Num x)) (Num (- (1 / 10))))) lo) hi)"
  using assms
  by (cases lo; cases hi) (auto simp: Math_min_def Math_max_def num_ge_def)


lemma crashPoint_bounds:
  assumes "digest32 H" and "num_le (minCrashOf e) (maxCrashOf e)" and "minCrashOf e \<noteq> NegInf"
  shows "num_le (minCrashOf e) (calculateCrashPoint e H sd rid)
       \<and> num_le (calculateCrashPoint e H sd rid) (maxCrashOf e)"
proof -
  let ?d = "H (engineSecret e) (sd @ rid)"
  let ?n = "be_uint (take 4 ?d)"
  have len: "4 \<le> length ?d" using assms(1) by (simp add: digest32_def)
  have hn: "parseInt16 (take 8 (digest_hex ?d)) = Num (real ?n)"
    by (rule hashNum_eq [OF len])
  have "real ?n \<le> 4294967295" using hashNum_le [OF len] by linarith
  then have x0: "0 \<le> 1 - real ?n / 4294967295" by simp
  have form: "calculateCrashPoint e H sd rid
      = Math_min (Math_max (num_add (minCrashOf e)
          (num_div (Math_log (Num (1 - real ?n / 4294967295))) (Num (- (1 / 10))))) (minCrashOf e)) (maxCrashOf e)"
    by (simp add: calculateCrashPoint_def Let_def hn num_sub_def)
  have nn: "minCrashOf e \<noteq> NaN" by (simp add: minCrashOf_def num_or_not_NaN)
  show ?thesis
    using crash_formula_range [OF x0, of "maxCrashOf e" "minCrashOf e"] nn assms(2,3)
    by (simp add: form num_le_def)
qed



lemmas engine_defs = start_def startNewRound_def startNewRound_create_def suspendE_def
  suspendP_def settle_def emit_def setTimer_def clearTimer_def stop_def
  safeSave_begin_def safeSave_end_def endRound_save_def endRound_def crashGame_def
  crashGame_finish_def startNewRound_saved_def startGamePhase_def startGamePhase_saved_def
  updateMultiplier_def

lemmas inv_defs = engineInv_def phaseInv_def inPhase_def

lemma inv_start: "phaseInv Creating (start e H S i (boot ps rs))"
  by (simp add: inv_defs engine_defs boot_def newGameManager_def Let_def)

lemma inv_stop:
  assumes "phaseInv ph w"
  shows "\<exists>ph'. phaseInv ph' (stop w)"
proof (cases ph)
  case Ticking
  with assms have "phaseInv Stopped (stop w)"
    by (auto simp: inv_defs stop_def clearTimer_def)
  then show ?thesis ..
next
  case Creating
  with assms have "phaseInv ph (stop w)"
    by (auto simp: inv_defs stop_def clearTimer_def split: option.splits)
  then show ?thesis ..
next
  case Stalled
  with assms have "phaseInv ph (stop w)"
    by (auto simp: inv_defs stop_def clearTimer_def split: option.splits)
  then show ?thesis ..
next
  case Betting
  with assms have "phaseInv ph (stop w)"
    by (auto simp: inv_defs stop_def clearTimer_def split: option.splits)
  then show ?thesis ..
next
  case Activating
  with assms have "phaseInv ph (stop w)"
    by (auto simp: inv_defs stop_def clearTimer_def split: option.splits)
  then show ?thesis ..
next
  case Stopped
  with assms have "phaseInv ph (stop w)"
    by (auto simp: inv_defs stop_def clearTimer_def split: option.splits)
  then show ?thesis ..
next
  case Crashing
  with assms have "phaseInv ph (stop w)"
    by (auto simp: inv_defs stop_def clearTimer_def split: option.splits)
  then show ?thesis ..
next
  case Cooldown
  with assms have "phaseInv ph (stop w)"
    by (auto simp: inv_defs stop_def clearTimer_def split: option.splits)
  then show ?thesis ..
qed

lemma fire_no_timer: "timers w = [] \<Longrightarrow> fire e H S i h w = w"
  by (simp add: fire_def)

lemma fire_other: "timers w = [(h0, t)] \<Longrightarrow> h \<noteq> h0 \<Longrightarrow> fire e H S i h w = w"
  by (simp add: fire_def)

lemma fire_timeout:
  "timers w = [(h0, Timeout cb)] \<Longrightarrow> fire e H S i h0 w = runCallback e H S i cb (w\<lparr>timers := []\<rparr>)"
  by (simp add: fire_def clearTimer_def)

lemma fire_interval:
  "timers w = [(h0, Interval cb)] \<Longrightarrow> fire e H S i h0 w = runCallback e H S i cb w"
  by (simp add: fire_def)

lemma fire_Betting:
  assumes "phaseInv Betting w"
  shows "phaseInv Betting (fire e H S i h w) \<or> phaseInv Activating (fire e H S i h w)"
proof -
  from assms obtain h0 where t: "timers w = [(h0, Timeout StartGamePhase)]"
    by (auto simp: inv_defs)
  show ?thesis
  proof (cases "h = h0")
    case False
    with t assms show ?thesis by (simp add: fire_other)
  next
    case True
    have "phaseInv Activating (startGamePhase i (w\<lparr>timers := []\<rparr>))"
      using assms t by (auto simp: inv_defs engine_defs Let_def num_ge_def)
    with True t show ?thesis by (simp add: fire_timeout runCallback_def)
  qed
qed

lemma tick_Ticking:
  assumes "phaseInv Ticking w" and "currentRound (gm w) = Some r"
    and "\<not> num_ge (tickValue i w) (crashPoint r)"
  shows "phaseInv Ticking (updateMultiplier i w)"
  using assms by (auto simp: inv_defs engine_defs Let_def tickValue_def)

lemma tick_Crashing:
  assumes "phaseInv Ticking w" and "currentRound (gm w) = Some r"
    and "num_ge (tickValue i w) (crashPoint r)"
  shows "phaseInv Crashing (updateMultiplier i w)"
  using assms by (auto simp: inv_defs engine_defs Let_def tickValue_def)

lemma fire_Ticking:
  assumes "phaseInv Ticking w"
  shows "phaseInv Ticking (fire e H S i h w) \<or> phaseInv Crashing (fire e H S i h w)"
proof -
  from assms obtain h0 r where t: "timers w = [(h0, Interval UpdateMultiplier)]"
    and r: "currentRound (gm w) = Some r"
    by (auto simp: inv_defs)
  show ?thesis
  proof (cases "h = h0")
    case False
    with t assms show ?thesis by (simp add: fire_other)
  next
    case True
    have "phaseInv Ticking (updateMultiplier i w) \<or> phaseInv Crashing (updateMultiplier i w)"
      using tick_Ticking [OF assms r] tick_Crashing [OF assms r] by blast
    with True t show ?thesis by (simp add: fire_interval runCallback_def)
  qed
qed

lemma fire_Cooldown:
  assumes "phaseInv Cooldown w"
  shows "phaseInv Cooldown (fire e H S i h w) \<or> phaseInv Creating (fire e H S i h w)"
proof -
  from assms obtain h0 where t: "timers w = [(h0, Timeout StartNewRound)]"
    by (auto simp: inv_defs)
  show ?thesis
  proof (cases "h = h0")
    case False
    with t assms show ?thesis by (simp add: fire_other)
  next
    case True
    have "phaseInv Creating (startNewRound e H S i (w\<lparr>timers := []\<rparr>))"
      using assms t by (auto simp: inv_defs engine_defs Let_def)
    with True t show ?thesis by (simp add: fire_timeout runCallback_def)
  qed
qed

lemma fire_idle:
  assumes "phaseInv ph w" and "ph \<in> {Creating, Stalled, Activating, Stopped, Crashing}"
  shows "fire e H S i h w = w"
proof -
  from assms have "timers w = []" by (auto simp: inv_defs)
  then show ?thesis by (rule fire_no_timer)
qed

lemma inv_fire:
  assumes "phaseInv ph w"
  shows "\<exists>ph'. phaseInv ph' (fire e H S i h w)"
proof (cases "ph \<in> {Creating, Stalled, Activating, Stopped, Crashing}")
  case True
  with assms show ?thesis by (auto simp: fire_idle simp del: insert_iff)
next
  case False
  then consider "ph = Betting" | "ph = Ticking" | "ph = Cooldown" by (cases ph) auto
  then show ?thesis
  proof cases
    case 1
    with fire_Betting [of w e H S i h] assms show ?thesis by blast
  next
    case 2
    with fire_Ticking [of w e H S i h] assms show ?thesis by blast
  next
    case 3
    with fire_Cooldown [of w e H S i h] assms show ?thesis by blast
  qed
qed

lemma phaseInv_control:
  assumes "control w' = control w" and "phaseInv ph w"
  shows "phaseInv ph w'"
proof -
  from assms(2) obtain r where r: "currentRound (gm w) = Some r"
    by (auto simp: phaseInv_def)
  with assms(1) obtain r' where r': "currentRound (gm w') = Some r'"
    and s: "status r' = status r" "crashPoint r' = crashPoint r"
    by (auto simp: control_def)
  from assms(1) have c: "etasks w' = etasks w" "timers w' = timers w" "nextHandle w' = nextHandle w"
    "multiplierInterval (gm w') = multiplierInterval (gm w)"
    "isGameActive (gm w') = isGameActive (gm w)"
    "currentMultiplier (gm w') = currentMultiplier (gm w)"
    by (simp_all add: control_def)
  have "inPhase ph w' = inPhase ph w"
    by (cases ph) (simp_all add: inPhase_def c)
  with assms(2) r r' s c show ?thesis
    by (simp add: phaseInv_def)
qed

lemma control_placeBet: "control (placeBet e i pid usd cur w) = control w"
  by (simp add: placeBet_def control_def settle_def suspendP_def
        split: option.splits price_step.splits outcome.splits)

lemma settleFirst_length: "settleFirst pid m bs = Some (bs', b') \<Longrightarrow> length bs' = length bs"
  by (induction bs arbitrary: bs') (auto split: if_splits option.splits)

lemma control_cashOut: "control (cashOut pid w) = control w"
  by (auto simp: cashOut_def cashOut_begin_def control_def settle_def suspendP_def
        split: option.splits sum.splits if_splits)

lemma control_resumePlayer: "control (resumePlayer i t (w\<lparr>ptasks := ts\<rparr>)) = control w"
  by (cases t)
     (auto simp: resumePlayer_def control_def settle_def suspendP_def emit_def
        placeBet_priced_def placeBet_found_def placeBet_savedPlayer_def placeBet_finish_def
        cashOut_found_def cashOut_savedPlayer_def cashOut_finish_def
        safeSave_begin_def safeSave_end_def Let_def
        split: option.splits prod.splits outcome.splits if_splits)

lemma resume_Creating:
  assumes "phaseInv Creating w"
  shows "phaseInv Betting (exec e H S i (ResumeEngine k) w)
       \<or> phaseInv Stalled (exec e H S i (ResumeEngine k) w)
       \<or> exec e H S i (ResumeEngine k) w = w"
proof (cases "k = 0")
  case False
  with assms have "exec e H S i (ResumeEngine k) w = w"
    by (auto simp: inv_defs exec_def)
  then show ?thesis by simp
next
  case True
  from assms obtain d where d: "etasks w = [NewRound_Saving d]"
    by (auto simp: inv_defs)
  then have ex: "exec e H S i (ResumeEngine k) w = startNewRound_saved d i (w\<lparr>etasks := []\<rparr>)"
    using True by (simp add: exec_def resumeEngine_def dropNth_def)
  show ?thesis
  proof (cases "saveOk i")
    case True
    with assms d have "phaseInv Betting (startNewRound_saved d i (w\<lparr>etasks := []\<rparr>))"
      by (auto simp: inv_defs engine_defs)
    with ex show ?thesis by simp
  next
    case False
    with assms d have "phaseInv Stalled (startNewRound_saved d i (w\<lparr>etasks := []\<rparr>))"
      by (auto simp: inv_defs engine_defs)
    with ex show ?thesis by simp
  qed
qed

lemma resume_Activating:
  assumes "phaseInv Activating w"
  shows "phaseInv Ticking (exec e H S i (ResumeEngine k) w)
       \<or> exec e H S i (ResumeEngine k) w = w"
proof (cases "k = 0")
  case False
  with assms have "exec e H S i (ResumeEngine k) w = w"
    by (auto simp: inv_defs exec_def)
  then show ?thesis by simp
next
  case True
  with assms have "phaseInv Ticking (exec e H S i (ResumeEngine k) w)"
    by (auto simp: inv_defs engine_defs exec_def resumeEngine_def dropNth_def Let_def)
  then show ?thesis by simp
qed

lemma resume_Crashing:
  assumes "phaseInv Crashing w"
  shows "phaseInv Crashing (exec e H S i (ResumeEngine k) w)
       \<or> phaseInv Cooldown (exec e H S i (ResumeEngine k) w)"
proof (cases "k = 0")
  case False
  with assms have "exec e H S i (ResumeEngine k) w = w"
    by (auto simp: inv_defs exec_def)
  with assms show ?thesis by simp
next
  case True
  from assms consider "etasks w = [EndRound_Stats FromCrashGame]"
    | "etasks w = [EndRound_Return FromCrashGame]"
    | d where "etasks w = [EndRound_Saving FromCrashGame d]"
    by (auto simp: inv_defs)
  then show ?thesis
  proof cases
    case 1
    with assms True have "phaseInv Crashing (exec e H S i (ResumeEngine k) w)"
      by (auto simp: inv_defs engine_defs exec_def resumeEngine_def dropNth_def)
    then show ?thesis by simp
  next
    case 2
    with assms True have "phaseInv Cooldown (exec e H S i (ResumeEngine k) w)"
      by (auto simp: inv_defs engine_defs exec_def resumeEngine_def afterEndRound_def dropNth_def)
    then show ?thesis by simp
  next
    case 3
    with assms True have "phaseInv Cooldown (exec e H S i (ResumeEngine k) w)"
      by (auto simp: inv_defs engine_defs exec_def resumeEngine_def afterEndRound_def dropNth_def)
    then show ?thesis by simp
  qed
qed

lemma resume_idle:
  assumes "phaseInv ph w" and "ph \<in> {Stalled, Betting, Ticking, Stopped, Cooldown}"
  shows "exec e H S i (ResumeEngine k) w = w"
proof -
  from assms have "etasks w = []" by (auto simp: inv_defs)
  then show ?thesis by (simp add: exec_def)
qed

lemma inv_resumeEngine:
  assumes "phaseInv ph w"
  shows "\<exists>ph'. phaseInv ph' (exec e H S i (ResumeEngine k) w)"
proof (cases "ph \<in> {Stalled, Betting, Ticking, Stopped, Cooldown}")
  case True
  with assms show ?thesis by (auto simp: resume_idle simp del: insert_iff)
next
  case False
  then consider "ph = Creating" | "ph = Activating" | "ph = Crashing" by (cases ph) auto
  then show ?thesis
  proof cases
    case 1
    with resume_Creating [of w e H S i k] assms show ?thesis by auto
  next
    case 2
    with resume_Activating [of w e H S i k] assms show ?thesis by auto
  next
    case 3
    with resume_Crashing [of w e H S i k] assms show ?thesis by auto
  qed
qed

lemma inv_player:
  assumes "phaseInv ph w"
  shows "phaseInv ph (exec e H S i (PlaceBet pid usd cur) w)"
    and "phaseInv ph (exec e H S i (CashOut pid) w)"
    and "phaseInv ph (exec e H S i (ResumePlayer k) w)"
proof -
  show "phaseInv ph (exec e H S i (PlaceBet pid usd cur) w)"
    using assms by (simp add: exec_def phaseInv_control [OF control_placeBet])
  show "phaseInv ph (exec e H S i (CashOut pid) w)"
    using assms by (simp add: exec_def phaseInv_control [OF control_cashOut])
  show "phaseInv ph (exec e H S i (ResumePlayer k) w)"
    using assms by (simp add: exec_def phaseInv_control [OF control_resumePlayer])
qed

lemma engineInv_exec:
  assumes "engineInv w"
  shows "engineInv (exec e H S i ev w)"
proof -
  from assms obtain ph where ph: "phaseInv ph w" by (auto simp: engineInv_def)
  show ?thesis
  proof (cases ev)
    case Stop
    with inv_stop [OF ph] show ?thesis by (simp add: exec_def engineInv_def)
  next
    case (PlaceBet pid usd cur)
    show ?thesis unfolding engineInv_def PlaceBet by (rule exI, rule inv_player(1) [OF ph])
  next
    case (CashOut pid)
    show ?thesis unfolding engineInv_def CashOut by (rule exI, rule inv_player(2) [OF ph])
  next
    case (Fire h)
    with inv_fire [OF ph] show ?thesis by (simp add: exec_def engineInv_def)
  next
    case (ResumeEngine k)
    with inv_resumeEngine [OF ph] show ?thesis by (simp add: engineInv_def)
  next
    case (ResumePlayer k)
    show ?thesis unfolding engineInv_def ResumePlayer by (rule exI, rule inv_player(3) [OF ph])
  qed
qed

lemma reachable_engineInv:
  assumes "reachable e H S w"
  shows "engineInv w"
  using assms
proof (induction rule: reachable.induct)
  case (started i ps rs)
  show ?case unfolding engineInv_def by (rule exI, rule inv_start)
next
  case (step w i ev)
  then show ?case by (simp add: engineInv_exec)
qed

lemma reachable_run: "reachable e H S w \<Longrightarrow> reachable e H S (run e H S tr w)"
proof (induction tr arbitrary: w)
  case Nil
  then show ?case by simp
next
  case (Cons x tr)
  obtain i ev where x: "x = (i, ev)" by (cases x)
  from Cons.prems have "reachable e H S (exec e H S i ev w)" by (rule reachable.step)
  then have "reachable e H S (run e H S tr (exec e H S i ev w))" by (rule Cons.IH)
  then show ?case by (simp add: x)
qed

lemma list_all2_betKept_refl: "list_all2 (betKept w) bs bs"
  by (simp add: list_all2_refl betKept_def)

lemma core_roundKept:
  assumes "core w' = core w" and "currentRound (gm w) = Some r"
  shows "\<exists>r'. currentRound (gm w') = Some r' \<and> roundKept w r r'"
  using assms by (auto simp: core_def roundKept_def list_all2_betKept_refl)

lemma settleFirst_kept:
  "settleFirst pid m bs = Some (bs', x) \<Longrightarrow>
     list_all2 (\<lambda>b b'. b' = b \<or> (\<not> cashedOut b \<and> b' = cashedOutBet m b)) bs bs'"
proof (induction bs arbitrary: bs')
  case Nil
  then show ?case by simp
next
  case (Cons b bs)
  then show ?case
    by (auto split: if_splits option.splits simp: list_all2_refl)
qed

lemma core_stop: "core (stop w) = core w"
  by (simp add: core_def stop_def clearTimer_def split: option.splits)

lemma core_placeBet: "core (placeBet e i pid usd cur w) = core w"
  by (simp add: placeBet_def core_def settle_def suspendP_def
        split: option.splits price_step.splits outcome.splits)

lemma round_cashOut:
  assumes "currentRound (gm w) = Some r"
  shows "\<exists>r'. currentRound (gm (cashOut pid w)) = Some r' \<and> roundKept w r r'"
proof (cases "cashOut_begin (gm w) pid")
  case (Inl err)
  then have "core (cashOut pid w) = core w"
    by (simp add: cashOut_def core_def settle_def)
  then show ?thesis using assms by (rule core_roundKept)
next
  case (Inr p)
  obtain g x where p: "p = (g, x)" by (cases p)
  from Inr p assms obtain bs' where a: "isGameActive (gm w)"
    and sf: "settleFirst pid (currentMultiplier (gm w)) (bets r) = Some (bs', x)"
    and g: "g = (gm w)\<lparr>currentRound := Some (r\<lparr>bets := bs'\<rparr>)\<rparr>"
    by (auto simp: cashOut_begin_def split: if_splits option.splits)
  from settleFirst_kept [OF sf] have "list_all2 (betKept w) (bets r) bs'"
    using a by (auto simp: betKept_def elim: list_all2_mono)
  moreover from this have "length bs' = length (bets r)" by (simp add: list_all2_lengthD)
  ultimately have "roundKept w r (r\<lparr>bets := bs'\<rparr>)"
    by (simp add: roundKept_def)
  with Inr p g show ?thesis
    by (simp add: cashOut_def suspendP_def)
qed

lemma round_resumePlayer:
  assumes "currentRound (gm w) = Some r"
  shows "\<exists>r'. currentRound (gm (resumePlayer i t (w\<lparr>ptasks := ts\<rparr>))) = Some r' \<and> roundKept w r r'"
proof (cases "\<exists>b nb. t = PlaceBet_SavePlayer b nb \<and> saveOk i \<and> validates (cryptocurrency b) nb")
  case False
  have "core (resumePlayer i t (w\<lparr>ptasks := ts\<rparr>)) = core w"
    using False
    by (cases t)
       (auto simp: resumePlayer_def core_def settle_def suspendP_def emit_def
          placeBet_priced_def placeBet_found_def placeBet_savedPlayer_def placeBet_finish_def
          cashOut_found_def cashOut_savedPlayer_def cashOut_finish_def
          safeSave_begin_def safeSave_end_def Let_def
          split: option.splits prod.splits outcome.splits if_splits)
  then show ?thesis using assms by (rule core_roundKept)
next
  case True
  then obtain b nb where t: "t = PlaceBet_SavePlayer b nb"
    and ok: "saveOk i" "validates (cryptocurrency b) nb" by blast
  have "roundKept w r (r\<lparr>bets := bets r @ [castBet b]\<rparr>)"
    by (simp add: roundKept_def list_all2_betKept_refl castBet_def)
  with t ok assms show ?thesis
    by (auto simp: resumePlayer_def placeBet_savedPlayer_def suspendP_def safeSave_begin_def Let_def)
qed

lemma core_endRound_save: "core (endRound_save cl w) = core w"
  by (simp add: core_def endRound_save_def safeSave_begin_def suspendE_def split: option.splits)

lemma core_endRound: "core (endRound cl i w) = core w"
  by (simp add: core_def endRound_def endRound_save_def safeSave_begin_def suspendE_def Let_def
        split: option.splits)

lemma core_gm: "gm w' = gm w \<Longrightarrow> core w' = core w"
  by (simp add: core_def)

lemma core_emit: "core (emit n b w) = core w"
  by (simp add: core_def emit_def)

lemma core_crashGame: "core (crashGame i w) = core w"
  by (simp add: core_def crashGame_def endRound_def endRound_save_def safeSave_begin_def
        suspendE_def clearTimer_def Let_def split: option.splits)

lemma core_updateMultiplier: "core (updateMultiplier i w) = core w"
  by (simp add: core_def updateMultiplier_def crashGame_def endRound_def endRound_save_def
        safeSave_begin_def suspendE_def clearTimer_def emit_def Let_def split: option.splits)

lemma core_startGamePhase: "core (startGamePhase i w) = core w"
  by (simp add: core_def startGamePhase_def safeSave_begin_def suspendE_def Let_def
        split: option.splits)

lemma core_startGamePhase_saved: "core (startGamePhase_saved w) = core w"
  by (simp add: core_def startGamePhase_saved_def setTimer_def emit_def Let_def
        split: option.splits)

lemma core_startNewRound_saved: "core (startNewRound_saved r i w) = core w"
  by (simp add: core_def startNewRound_saved_def setTimer_def emit_def)

lemma core_crashGame_finish: "core (crashGame_finish w) = core w"
  by (simp add: core_def crashGame_finish_def setTimer_def emit_def split: option.splits)

lemma core_safeSave_end: "core (safeSave_end ok d w) = core w"
  by (simp add: core_def safeSave_end_def)

lemma fresh_create:
  "\<exists>r'. currentRound (gm (startNewRound_create e H S i w)) = Some r' \<and> roundFresh r'"
  by (simp add: startNewRound_create_def suspendE_def roundFresh_def Let_def)

lemma keptOrFresh_round:
  assumes "keptOrFresh w w'" and "currentRound (gm w) = Some r"
  shows "\<exists>r'. currentRound (gm w') = Some r' \<and> (roundKept w r r' \<or> roundFresh r')"
  using assms core_roundKept [of w' w r] by (auto simp: keptOrFresh_def)

lemma keptOrFresh_startNewRound: "keptOrFresh w (startNewRound e H S i w)"
  using fresh_create [of e H S i w]
  by (simp add: keptOrFresh_def startNewRound_def core_endRound)

lemma keptOrFresh_callback:
  assumes "core w' = core w"
  shows "keptOrFresh w (runCallback e H S i cb w')"
proof (cases cb)
  case StartGamePhase
  with assms show ?thesis by (simp add: keptOrFresh_def runCallback_def core_startGamePhase)
next
  case UpdateMultiplier
  with assms show ?thesis by (simp add: keptOrFresh_def runCallback_def core_updateMultiplier)
next
  case StartNewRound
  with assms keptOrFresh_startNewRound [of w' e H S i] show ?thesis
    by (simp add: keptOrFresh_def runCallback_def)
qed

lemma keptOrFresh_fire: "keptOrFresh w (fire e H S i h w)"
proof (cases "map_of (timers w) h")
  case None
  then show ?thesis by (simp add: fire_def keptOrFresh_def)
next
  case (Some t)
  have c: "core (clearTimer h w) = core w" by (simp add: core_def clearTimer_def)
  show ?thesis
  proof (cases t)
    case (Timeout cb)
    with Some keptOrFresh_callback [OF c] show ?thesis by (simp add: fire_def)
  next
    case (Interval cb)
    with Some keptOrFresh_callback [OF refl] show ?thesis by (simp add: fire_def)
  qed
qed

lemma keptOrFresh_afterEndRound:
  assumes "core w' = core w"
  shows "keptOrFresh w (afterEndRound e H S i cl w')"
  using assms fresh_create [of e H S i w']
  by (cases cl) (simp_all add: keptOrFresh_def afterEndRound_def core_crashGame_finish)

lemma keptOrFresh_resumeEngine:
  "keptOrFresh w (resumeEngine e H S i t (w\<lparr>etasks := ts\<rparr>))"
proof -
  have c: "core (w\<lparr>etasks := ts\<rparr>) = core w" by (simp add: core_def)
  show ?thesis
  proof (cases t)
    case (EndRound_Stats cl)
    then show ?thesis by (simp add: resumeEngine_def keptOrFresh_def core_endRound_save c)
  next
    case (EndRound_Saving cl d)
    then show ?thesis
      by (simp add: resumeEngine_def keptOrFresh_afterEndRound core_safeSave_end c)
  next
    case (EndRound_Return cl)
    then show ?thesis by (simp add: resumeEngine_def keptOrFresh_afterEndRound c)
  next
    case (NewRound_Saving d)
    then show ?thesis by (simp add: resumeEngine_def keptOrFresh_def core_startNewRound_saved c)
  next
    case (GamePhase_Saving d)
    then show ?thesis
      by (simp add: resumeEngine_def keptOrFresh_def core_startGamePhase_saved core_safeSave_end c)
  next
    case GamePhase_Return
    then show ?thesis by (simp add: resumeEngine_def keptOrFresh_def core_startGamePhase_saved c)
  qed
qed

theorem exec_round:
  assumes "currentRound (gm w) = Some r"
  shows "\<exists>r'. currentRound (gm (exec e H S i ev w)) = Some r' \<and> (roundKept w r r' \<or> roundFresh r')"
proof (cases ev)
  case Stop
  with core_roundKept [OF core_stop assms] show ?thesis by (auto simp: exec_def)
next
  case (PlaceBet pid usd cur)
  with core_roundKept [OF core_placeBet assms, of e i pid usd cur] show ?thesis
    by (auto simp: exec_def)
next
  case (CashOut pid)
  with round_cashOut [OF assms, of pid] show ?thesis by (auto simp: exec_def)
next
  case (Fire h)
  with keptOrFresh_round [OF keptOrFresh_fire assms] show ?thesis by (simp add: exec_def)
next
  case (ResumeEngine k)
  show ?thesis
  proof (cases "k < length (etasks w)")
    case True
    with ResumeEngine keptOrFresh_round [OF keptOrFresh_resumeEngine assms] show ?thesis
      by (simp add: exec_def)
  next
    case False
    with ResumeEngine assms show ?thesis
      by (simp add: exec_def roundKept_def list_all2_betKept_refl)
  qed
next
  case (ResumePlayer k)
  show ?thesis
  proof (cases "k < length (ptasks w)")
    case True
    with ResumePlayer
      round_resumePlayer [OF assms, of i "ptasks w ! k" "dropNth k (ptasks w)"]
    show ?thesis by (auto simp: exec_def)
  next
    case False
    with ResumePlayer assms show ?thesis
      by (simp add: exec_def roundKept_def list_all2_betKept_refl)
  qed
qed

lemma num_lt_le_not_ge: "num_lt a b \<Longrightarrow> num_le b c \<Longrightarrow> \<not> num_ge a c"
  by (cases a; cases b; cases c) (auto simp: num_le_def num_ge_def)

lemma crashAboveOne_configured:
  assumes "digest32 H" and "num_lt (Num 1) (minCrashOf e)"
    and "num_le (minCrashOf e) (maxCrashOf e)"
  shows "crashAboveOne e H"
proof -
  from assms(2) have "minCrashOf e \<noteq> NegInf" by auto
  from crashPoint_bounds [OF assms(1,3) this]
  have "num_le (minCrashOf e) (calculateCrashPoint e H sd rid)" for sd rid by simp
  with assms(2) show ?thesis
    by (auto simp: crashAboveOne_def dest: num_lt_le_not_ge)
qed

lemma engineInv_flags:
  assumes "engineInv w"
  shows "\<exists>r. currentRound (gm w) = Some r
           \<and> (isGameActive (gm w) \<longleftrightarrow> status r = active)
           \<and> (isGameActive (gm w) \<longrightarrow>
                 currentMultiplier (gm w) = Num 1
               \<or> \<not> num_ge (currentMultiplier (gm w)) (crashPoint r))"
proof -
  from assms obtain ph where "phaseInv ph w" by (auto simp: engineInv_def)
  then show ?thesis by (cases ph) (auto simp: phaseInv_def)
qed

lemma list_all2_transfer:
  assumes "list_all2 R xs ys" and "list_all P xs" and "\<And>x y. R x y \<Longrightarrow> P x \<Longrightarrow> Q y"
  shows "list_all Q ys"
  using assms(1,2)
proof (induction rule: list_all2_induct)
  case Nil
  then show ?case by simp
next
  case (Cons x xs y ys)
  then show ?case by (simp add: assms(3))
qed

lemma settledInPlay_kept:
  assumes "roundKept w r r'" and "settledInPlay r"
    and "isGameActive (gm w) \<longrightarrow>
           currentMultiplier (gm w) = Num 1 \<or> \<not> num_ge (currentMultiplier (gm w)) (crashPoint r)"
  shows "settledInPlay r'"
proof -
  let ?P = "\<lambda>cp b. cashedOut b \<longrightarrow>
                 (case cashoutMultiplier b of
                    None \<Rightarrow> False | Some m \<Rightarrow> m = Num 1 \<or> \<not> num_ge m cp)"
  let ?n = "length (bets r)"
  from assms(1) have cp: "crashPoint r' = crashPoint r"
    and k: "list_all2 (betKept w) (bets r) (take ?n (bets r'))"
    and n: "list_all (\<lambda>b. \<not> cashedOut b) (drop ?n (bets r'))"
    by (simp_all add: roundKept_def)
  have step: "?P (crashPoint r) b'" if "betKept w b b'" and "?P (crashPoint r) b" for b b'
    using that assms(3) by (auto simp: betKept_def cashedOutBet_def Let_def)
  from assms(2) have "list_all (?P (crashPoint r)) (bets r)"
    by (simp add: settledInPlay_def)
  with k have "list_all (?P (crashPoint r)) (take ?n (bets r'))"
    by (rule list_all2_transfer) (rule step)
  moreover from n have "list_all (?P (crashPoint r)) (drop ?n (bets r'))"
    by (auto simp: list_all_iff)
  ultimately have "list_all (?P (crashPoint r)) (take ?n (bets r') @ drop ?n (bets r'))"
    by (simp only: list_all_append simp_thms)
  then show ?thesis unfolding settledInPlay_def cp by simp
qed

lemma betsInv_exec:
  assumes "engineInv w" and "betsInv w"
  shows "betsInv (exec e H S i ev w)"
proof -
  from engineInv_flags [OF assms(1)] obtain r where r: "currentRound (gm w) = Some r"
    and below: "isGameActive (gm w) \<longrightarrow>
                  currentMultiplier (gm w) = Num 1
                \<or> \<not> num_ge (currentMultiplier (gm w)) (crashPoint r)"
    by blast
  from assms(2) r have sb: "settledInPlay r" by (simp add: betsInv_def)
  from exec_round [OF r, of e H S i ev] obtain r'
    where r': "currentRound (gm (exec e H S i ev w)) = Some r'"
      and kf: "roundKept w r r' \<or> roundFresh r'" by blast
  from kf have "settledInPlay r'"
  proof
    assume "roundKept w r r'"
    then show ?thesis using sb below by (rule settledInPlay_kept)
  next
    assume "roundFresh r'"
    then show ?thesis by (simp add: roundFresh_def settledInPlay_def)
  qed
  with r' show ?thesis by (simp add: betsInv_def)
qed

lemma reachable_betsInv:
  assumes "reachable e H S w"
  shows "betsInv w"
  using assms
proof (induction rule: reachable.induct)
  case (started i ps rs)
  show ?case
    by (simp add: betsInv_def settledInPlay_def engine_defs boot_def newGameManager_def Let_def)
next
  case (step w i ev)
  from reachable_engineInv [OF step.hyps] step.IH show ?case
    by (rule betsInv_exec)
qed

lemma settledInPlay_below:
  assumes "settledInPlay r" and "\<not> num_ge (Num 1) (crashPoint r)"
  shows "settledBelow r"
  using assms
  by (auto simp: settledInPlay_def settledBelow_def list_all_iff split: option.splits)

lemma cashOut_rejected:
  assumes "currentRound (gm w) = Some r" and "\<not> isGameActive (gm w)"
  shows "exec e H S i (CashOut pid) w = w\<lparr>settled := settled w @ [(pid, CashOutRejected CannotCashOut)]\<rparr>"
  using assms by (simp add: exec_def cashOut_def cashOut_begin_def settle_def)

lemma list_all_dropNth: "list_all P xs \<Longrightarrow> list_all P (dropNth k xs)"
  by (auto simp: dropNth_def list_all_iff dest: in_set_takeD in_set_dropD)

lemma run_append: "run e H S (tr @ tr') w = run e H S tr' (run e H S tr w)"
  by (induction tr arbitrary: w) auto

lemma holds_simps [simp]: "holds P None" "holds P (Some r) = P r"
  by (simp_all add: holds_def)

lemma docs_stop: "docsInv P Q w \<Longrightarrow> docsInv P Q (stop w)"
  by (simp add: docsInv_def stop_def clearTimer_def split: option.splits)

lemma docs_endRound_save: "docsInv P Q w \<Longrightarrow> docsInv P Q (endRound_save cl w)"
  by (auto simp: docsInv_def endRound_save_def safeSave_begin_def suspendE_def
        split: option.splits)

lemma docs_endRound:
  assumes "stable P Q" and "docsInv P Q w"
  shows "docsInv P Q (endRound cl i w)"
proof (cases "currentRound (gm w)")
  case None
  with assms(2) show ?thesis by (simp add: endRound_def docsInv_def suspendE_def)
next
  case (Some r)
  with assms(2) have "P r" by (simp add: docsInv_def)
  with assms(1) have p: "P (r\<lparr>endTime := Some (now i), status := crashed\<rparr>)"
    by (simp add: stable_def)
  let ?w = "w\<lparr>gm := (gm w)\<lparr>currentRound := Some (r\<lparr>endTime := Some (now i), status := crashed\<rparr>)\<rparr>\<rparr>"
  from assms(2) p have d: "docsInv P Q ?w" by (simp add: docsInv_def)
  from d have "docsInv P Q (suspendE (EndRound_Stats cl) ?w)"
    by (simp add: docsInv_def suspendE_def)
  with docs_endRound_save [OF d, of cl] assms(2) Some show ?thesis
    by (simp add: endRound_def Let_def docsInv_def suspendE_def)
qed

lemma docs_clearTimer: "docsInv P Q (clearTimer h w) = docsInv P Q w"
  by (simp add: docsInv_def clearTimer_def)

lemma docs_active: "docsInv P Q (w\<lparr>gm := (gm w)\<lparr>isGameActive := b\<rparr>\<rparr>) = docsInv P Q w"
  by (simp add: docsInv_def)

lemma docs_crashGame:
  assumes "stable P Q" and "docsInv P Q w"
  shows "docsInv P Q (crashGame i w)"
  using assms
  by (auto simp: crashGame_def Let_def docs_clearTimer docs_active
        intro!: docs_endRound split: option.splits)

lemma docs_updateMultiplier:
  assumes "stable P Q" and "docsInv P Q w"
  shows "docsInv P Q (updateMultiplier i w)"
proof (cases "currentRound (gm w)")
  case None
  with assms(2) show ?thesis by (simp add: updateMultiplier_def)
next
  case (Some r)
  with assms(2) have "P r" by (simp add: docsInv_def)
  with assms(1) have p: "P (r\<lparr>maxMultiplier := m\<rparr>)" for m by (simp add: stable_def)
  have d: "docsInv P Q (w\<lparr>gm := (gm w)\<lparr>currentMultiplier := c, currentRound := Some (r\<lparr>maxMultiplier := m\<rparr>)\<rparr>\<rparr>)"
    for c m
    using assms(2) p [of m] by (simp add: docsInv_def)
  show ?thesis
    using Some assms(2) docs_crashGame [OF assms(1) d] d
    by (simp add: updateMultiplier_def Let_def emit_def docsInv_def)
qed

lemma docs_startGamePhase:
  assumes "stable P Q" and "docsInv P Q w"
  shows "docsInv P Q (startGamePhase i w)"
proof (cases "currentRound (gm w)")
  case None
  with assms(2) show ?thesis by (simp add: startGamePhase_def)
next
  case (Some r)
  with assms(2) have "P r" by (simp add: docsInv_def)
  with assms(1) have p: "P (r\<lparr>status := active\<rparr>)" by (simp add: stable_def)
  with Some assms(2) show ?thesis
    by (auto simp: startGamePhase_def Let_def safeSave_begin_def suspendE_def docsInv_def)
qed

lemma docs_create:
  assumes "P (newRound e H S i)" and "docsInv P Q w"
  shows "docsInv P Q (startNewRound_create e H S i w)"
  using assms
  by (simp add: startNewRound_create_def Let_def suspendE_def docsInv_def newRound_def)

lemma docs_startNewRound:
  assumes "stable P Q" and "P (newRound e H S i)" and "docsInv P Q w"
  shows "docsInv P Q (startNewRound e H S i w)"
  using docs_create [OF assms(2,3)] docs_endRound [OF assms(1,3)]
  by (simp add: startNewRound_def)

lemma docs_fire:
  assumes "stable P Q" and "P (newRound e H S i)" and "docsInv P Q w"
  shows "docsInv P Q (fire e H S i h w)"
proof -
  have c: "docsInv P Q (clearTimer h w)" using assms(3) by (simp add: docs_clearTimer)
  have "docsInv P Q (runCallback e H S i cb v)" if "docsInv P Q v" for cb v
    using that assms(1,2)
    by (cases cb)
      (simp_all add: runCallback_def docs_startGamePhase docs_updateMultiplier docs_startNewRound)
  with assms(3) c show ?thesis
    by (simp add: fire_def split: option.splits timer.splits)
qed

lemma docs_safeSave_end:
  assumes "stable P Q" and "docsInv P Q w" and "P d"
  shows "docsInv P Q (safeSave_end ok d w)"
proof -
  from assms(1,3) have "Q (roundId d) d" by (simp add: stable_def)
  with assms(2) show ?thesis by (simp add: docsInv_def safeSave_end_def)
qed

lemma docs_crashGame_finish: "docsInv P Q w \<Longrightarrow> docsInv P Q (crashGame_finish w)"
  by (auto simp: crashGame_finish_def docsInv_def setTimer_def emit_def split: option.splits)

lemma docs_startGamePhase_saved: "docsInv P Q w \<Longrightarrow> docsInv P Q (startGamePhase_saved w)"
  by (auto simp: startGamePhase_saved_def docsInv_def setTimer_def emit_def Let_def
        split: option.splits)

lemma docs_afterEndRound:
  assumes "P (newRound e H S i)" and "docsInv P Q w"
  shows "docsInv P Q (afterEndRound e H S i cl w)"
  using assms by (cases cl) (simp_all add: afterEndRound_def docs_crashGame_finish docs_create)

lemma docs_resumeEngine:
  assumes "stable P Q" and "P (newRound e H S i)" and "docsInv P Q w" and "holds P (etaskDoc t)"
  shows "docsInv P Q (resumeEngine e H S i t w)"
proof (cases t)
  case (EndRound_Stats cl)
  with assms(3) show ?thesis by (simp add: resumeEngine_def docs_endRound_save)
next
  case (EndRound_Saving cl d)
  with assms show ?thesis
    by (simp add: resumeEngine_def docs_afterEndRound docs_safeSave_end)
next
  case (EndRound_Return cl)
  with assms show ?thesis by (simp add: resumeEngine_def docs_afterEndRound)
next
  case (NewRound_Saving r)
  with assms(4) have "P r" by simp
  with assms(1) have "Q (roundId r) r" by (simp add: stable_def)
  with NewRound_Saving assms(3) show ?thesis
    by (simp add: resumeEngine_def startNewRound_saved_def setTimer_def emit_def docsInv_def)
next
  case (GamePhase_Saving d)
  with assms show ?thesis
    by (simp add: resumeEngine_def docs_startGamePhase_saved docs_safeSave_end)
next
  case GamePhase_Return
  with assms show ?thesis by (simp add: resumeEngine_def docs_startGamePhase_saved)
qed

lemma docs_placeBet: "docsInv P Q w \<Longrightarrow> docsInv P Q (placeBet e i pid usd cur w)"
  by (auto simp: placeBet_def docsInv_def settle_def suspendP_def
        split: option.splits price_step.splits outcome.splits)

lemma docs_cashOut:
  assumes "stable P Q" and "docsInv P Q w"
  shows "docsInv P Q (cashOut pid w)"
proof (cases "cashOut_begin (gm w) pid")
  case (Inl err)
  with assms(2) show ?thesis by (simp add: cashOut_def docsInv_def settle_def)
next
  case (Inr x)
  then obtain r bs' b' where r: "currentRound (gm w) = Some r"
    and x: "x = ((gm w)\<lparr>currentRound := Some (r\<lparr>bets := bs'\<rparr>)\<rparr>, b')"
    by (auto simp: cashOut_begin_def split: option.splits if_splits)
  from r assms(2) have "P r" by (simp add: docsInv_def)
  with assms(1) have "P (r\<lparr>bets := bs'\<rparr>)" by (simp add: stable_def)
  with Inr x assms(2) show ?thesis by (simp add: cashOut_def docsInv_def suspendP_def)
qed

lemma docs_resumePlayer:
  assumes "stable P Q" and "docsInv P Q w" and "holds P (ptaskDoc t)"
  shows "docsInv P Q (resumePlayer i t w)"
proof (cases t)
  case (PlaceBet_Price pid usd cur coin)
  with assms(2) show ?thesis
    by (auto simp: resumePlayer_def placeBet_priced_def docsInv_def settle_def suspendP_def
          split: prod.splits outcome.splits)
next
  case (PlaceBet_Find pid usd cur p)
  with assms(2) show ?thesis
    by (auto simp: resumePlayer_def placeBet_found_def docsInv_def settle_def suspendP_def
          Let_def split: option.splits)
next
  case (PlaceBet_SavePlayer b nb)
  show ?thesis
  proof (cases "currentRound (gm w)")
    case None
    with PlaceBet_SavePlayer assms(2) show ?thesis
      by (simp add: resumePlayer_def placeBet_savedPlayer_def docsInv_def settle_def Let_def)
  next
    case (Some r)
    with assms(2) have "P r" by (simp add: docsInv_def)
    with assms(1) have "P (r\<lparr>bets := bets r @ [castBet b]\<rparr>)" by (simp add: stable_def)
    with Some PlaceBet_SavePlayer assms(2) show ?thesis
      by (auto simp: resumePlayer_def placeBet_savedPlayer_def docsInv_def settle_def
            suspendP_def safeSave_begin_def Let_def)
  qed
next
  case (PlaceBet_SaveRound b d)
  from assms(1) have q: "P x \<Longrightarrow> Q (roundId x) x" for x by (simp add: stable_def)
  from PlaceBet_SaveRound assms(2,3) show ?thesis
    by (auto simp: resumePlayer_def placeBet_finish_def docsInv_def settle_def emit_def
          safeSave_end_def q Let_def split: option.splits)
next
  case (CashOut_Find b m)
  with assms(2) show ?thesis
    by (auto simp: resumePlayer_def cashOut_found_def docsInv_def settle_def suspendP_def
          split: option.splits)
next
  case (CashOut_SavePlayer b m nb)
  with assms(2) show ?thesis
    by (auto simp: resumePlayer_def cashOut_savedPlayer_def docsInv_def settle_def
          suspendP_def safeSave_begin_def Let_def split: option.splits)
next
  case (CashOut_SaveRound b m d)
  from assms(1) have q: "P x \<Longrightarrow> Q (roundId x) x" for x by (simp add: stable_def)
  from CashOut_SaveRound assms(2,3) show ?thesis
    by (auto simp: resumePlayer_def cashOut_finish_def docsInv_def settle_def emit_def
          safeSave_end_def q Let_def split: option.splits)
qed

lemma docs_tasks:
  assumes "docsInv P Q w"
  shows "docsInv P Q (w\<lparr>etasks := dropNth k (etasks w)\<rparr>)"
    and "docsInv P Q (w\<lparr>ptasks := dropNth k (ptasks w)\<rparr>)"
    and "k < length (etasks w) \<Longrightarrow> holds P (etaskDoc (etasks w ! k))"
    and "k < length (ptasks w) \<Longrightarrow> holds P (ptaskDoc (ptasks w ! k))"
proof -
  from assms show "docsInv P Q (w\<lparr>etasks := dropNth k (etasks w)\<rparr>)"
    by (simp add: docsInv_def list_all_dropNth)
  from assms show "docsInv P Q (w\<lparr>ptasks := dropNth k (ptasks w)\<rparr>)"
    by (simp add: docsInv_def list_all_dropNth)
  from assms show "k < length (etasks w) \<Longrightarrow> holds P (etaskDoc (etasks w ! k))"
    by (simp add: docsInv_def list_all_length)
  from assms show "k < length (ptasks w) \<Longrightarrow> holds P (ptaskDoc (ptasks w ! k))"
    by (simp add: docsInv_def list_all_length)
qed

lemma docs_exec:
  assumes "stable P Q" and "P (newRound e H S i)" and "docsInv P Q w"
  shows "docsInv P Q (exec e H S i ev w)"
proof (cases ev)
  case Stop
  with assms(3) show ?thesis by (simp add: exec_def docs_stop)
next
  case (PlaceBet pid usd cur)
  with assms(3) show ?thesis by (simp add: exec_def docs_placeBet)
next
  case (CashOut pid)
  with assms(1,3) show ?thesis by (simp add: exec_def docs_cashOut)
next
  case (Fire h)
  with assms show ?thesis by (simp add: exec_def docs_fire)
next
  case (ResumeEngine k)
  with assms docs_tasks(1,3) [OF assms(3), of k] show ?thesis
    by (simp add: exec_def docs_resumeEngine)
next
  case (ResumePlayer k)
  with assms(1,3) docs_tasks(2,4) [OF assms(3), of k] show ?thesis
    by (simp add: exec_def docs_resumePlayer)
qed

lemma docs_run:
  assumes "stable P Q" and "list_all (\<lambda>x. P (newRound e H S (fst x))) tr" and "docsInv P Q w"
  shows "docsInv P Q (run e H S tr w)"
  using assms(2,3)
proof (induction tr arbitrary: w)
  case Nil
  then show ?case by simp
next
  case (Cons x tr)
  obtain i ev where x: "x = (i, ev)" by (cases x)
  with Cons.prems have "docsInv P Q (exec e H S i ev w)"
    by (simp add: docs_exec [OF assms(1)])
  with Cons.prems(1) have "docsInv P Q (run e H S tr (exec e H S i ev w))"
    by (intro Cons.IH) simp_all
  then show ?case by (simp add: x)
qed

lemma docs_start:
  assumes "P (newRound e H S i)" and "\<forall>rid. holds (Q rid) (rs rid)"
  shows "docsInv P Q (start e H S i (boot ps rs))"
  using assms
  by (simp add: start_def startNewRound_def startNewRound_create_def boot_def
        newGameManager_def suspendE_def docsInv_def newRound_def Let_def)

lemma aboveOne_reached:
  assumes "crashAboveOne e H"
    and "currentRound (gm (run e H S tr (start e H S i0 (boot ps rs)))) = Some r"
  shows "\<not> num_ge (Num 1) (crashPoint r)"
proof -
  let ?P = "\<lambda>r. \<not> num_ge (Num 1) (crashPoint r)"
  have s: "stable ?P (\<lambda>rid r. True)" by (simp add: stable_def)
  have n: "?P (newRound e H S i)" for i using assms(1) by (simp add: newRound_def crashAboveOne_def)
  have q: "\<forall>rid. holds (\<lambda>r. True) (rs rid)" by (simp add: holds_def split: option.splits)
  have l: "list_all (\<lambda>x. ?P (newRound e H S (fst x))) tr" by (simp add: n list_all_iff)
  have "docsInv ?P (\<lambda>rid r. True) (run e H S tr (start e H S i0 (boot ps rs)))"
    using s l by (rule docs_run) (rule docs_start [where P = "?P" and Q = "\<lambda>rid r. True", OF n [of i0] q])
  with assms(2) show ?thesis by (simp add: docsInv_def)
qed

lemma settleFirst_multiplier:
  "settleFirst pid m bs = Some (bs', b') \<Longrightarrow> cashoutMultiplier b' = Some m"
  by (induction bs arbitrary: bs')
     (auto simp: cashedOutBet_def Let_def split: if_splits option.splits)

lemma cashOut_begin_active:
  assumes "cashOut_begin g pid = Inr (g', b')"
  shows "isGameActive g \<and> cashoutMultiplier b' = Some (currentMultiplier g)"
  using assms
  by (auto simp: cashOut_begin_def split: option.splits if_splits dest: settleFirst_multiplier)

text \<open>
  Claim C3, as amended. In every state that an execution of the server reaches, whatever
  the configuration, the engine's flag is raised exactly when the status of the round is
  active, and a \<open>cashOut\<close> that arrives while the round is not active (still waiting, or
  crashed) is rejected with ``Cannot cash out'' and changes nothing but the list of settled
  calls: no bet, no wallet. So no \<open>cashOut\<close> succeeds after the round has crashed. A
  \<open>cashOut\<close> that is honoured records the current multiplier, and that is 1, the
  multiplier a round starts at and keeps until its first tick, or is not greater than or
  equal to the crash point; so every bet of the round that is cashed out carries the
  multiplier 1 or one below the crash point. When the crash point of the round is above
  1, as it is under a configuration whose minimal crash point is above 1 and at most the
  maximal one, every bet that is cashed out carries a multiplier below the crash point.
  (A crash point of 1 or less leaves the time from the start of the game phase to the
  first tick, in which a cash-out at the multiplier 1 is honoured.)
\<close>

theorem cashOut_only_while_active:
  "\<exists>r. currentRound (gm (run e H S tr (start e H S i0 (boot ps rs)))) = Some r
     \<and> (isGameActive (gm (run e H S tr (start e H S i0 (boot ps rs)))) \<longleftrightarrow> status r = active)
     \<and> (status r \<noteq> active \<longrightarrow>
          exec e H S i (CashOut pid) (run e H S tr (start e H S i0 (boot ps rs)))
            = (run e H S tr (start e H S i0 (boot ps rs)))\<lparr>settled := settled (run e H S tr (start e H S i0 (boot ps rs))) @ [(pid, CashOutRejected CannotCashOut)]\<rparr>)
     \<and> (\<forall>g' b'. cashOut_begin (gm (run e H S tr (start e H S i0 (boot ps rs)))) pid = Inr (g', b') \<longrightarrow>
          status r = active
        \<and> cashoutMultiplier b' = Some (currentMultiplier (gm (run e H S tr (start e H S i0 (boot ps rs)))))
        \<and> (currentMultiplier (gm (run e H S tr (start e H S i0 (boot ps rs)))) = Num 1
           \<or> \<not> num_ge (currentMultiplier (gm (run e H S tr (start e H S i0 (boot ps rs))))) (crashPoint r)))
     \<and> settledInPlay r
     \<and> (\<not> num_ge (Num 1) (crashPoint r) \<longrightarrow> settledBelow r)
     \<and> (digest32 H \<and> num_lt (Num 1) (minCrashOf e) \<and> num_le (minCrashOf e) (maxCrashOf e) \<longrightarrow>
          \<not> num_ge (Num 1) (crashPoint r) \<and> settledBelow r)"
proof -
  let ?w = "(run e H S tr (start e H S i0 (boot ps rs)))"
  have re: "reachable e H S ?w" by (rule reachable_run) (rule reachable.started)
  from engineInv_flags [OF reachable_engineInv [OF re]] obtain r
    where r: "currentRound (gm ?w) = Some r"
      and f: "isGameActive (gm ?w) \<longleftrightarrow> status r = active"
      and m: "isGameActive (gm ?w) \<longrightarrow>
                currentMultiplier (gm ?w) = Num 1
              \<or> \<not> num_ge (currentMultiplier (gm ?w)) (crashPoint r)" by blast
  from reachable_betsInv [OF re] r have sb: "settledInPlay r" by (simp add: betsInv_def)
  have rej: "status r \<noteq> active \<longrightarrow>
          exec e H S i (CashOut pid) ?w = ?w\<lparr>settled := settled ?w @ [(pid, CashOutRejected CannotCashOut)]\<rparr>"
    using cashOut_rejected [OF r] f by blast
  have ok: "\<forall>g' b'. cashOut_begin (gm ?w) pid = Inr (g', b') \<longrightarrow>
          status r = active
        \<and> cashoutMultiplier b' = Some (currentMultiplier (gm ?w))
        \<and> (currentMultiplier (gm ?w) = Num 1
           \<or> \<not> num_ge (currentMultiplier (gm ?w)) (crashPoint r))"
    using cashOut_begin_active f m by blast
  have strict: "\<not> num_ge (Num 1) (crashPoint r) \<longrightarrow> settledBelow r"
    using sb by (simp add: settledInPlay_below)
  have conf: "digest32 H \<and> num_lt (Num 1) (minCrashOf e) \<and> num_le (minCrashOf e) (maxCrashOf e) \<longrightarrow>
          \<not> num_ge (Num 1) (crashPoint r) \<and> settledBelow r"
  proof
    assume "digest32 H \<and> num_lt (Num 1) (minCrashOf e) \<and> num_le (minCrashOf e) (maxCrashOf e)"
    then have "crashAboveOne e H" by (simp add: crashAboveOne_configured)
    then have "\<not> num_ge (Num 1) (crashPoint r)" using r by (rule aboveOne_reached)
    with strict show "\<not> num_ge (Num 1) (crashPoint r) \<and> settledBelow r" by simp
  qed
  from r f rej ok sb strict conf show ?thesis by blast
qed

lemmas run_defs = engine_defs exec_def fire_def runCallback_def resumeEngine_def resumePlayer_def
  afterEndRound_def dropNth_def boot_def newGameManager_def inputAt_def
  placeBet_def placeBet_priced_def placeBet_found_def placeBet_savedPlayer_def placeBet_finish_def
  cashOut_def cashOut_begin_def cashOut_found_def cashOut_savedPlayer_def cashOut_finish_def
  cashedOutBet_def castBet_def getPrice_begin_def getPrice_resume_def getPrice_catch_def
  balanceOf_def writeBalance_def setBalance_def validates_def validBalance_def
  num_sub_def alice_def booted_def Let_def

lemma toUpperCase_USDT: "toUpperCase ''USDT'' = ''USDT''"
  by (simp add: toUpperCase_def upperChar_def)

lemma be_uint_zeros: "be_uint (replicate n 0) = 0"
proof -
  have "foldl (\<lambda>acc b. acc * 256 + unat (b :: 8 word)) 0 (replicate n 0) = 0"
    by (induction n) simp_all
  then show ?thesis by (simp add: be_uint_def)
qed

lemma digest32_zeroDigest: "digest32 zeroDigest"
  by (simp add: digest32_def zeroDigest_def)

lemma unsetEnv_crash: "minCrashOf unsetEnv = Num (101 / 100)" "maxCrashOf unsetEnv = Num 120"
  "engineSecret unsetEnv = ''secret''"
  by (simp_all add: minCrashOf_def maxCrashOf_def engineSecret_def unsetEnv_def num_or_def)

lemma cacheTimeout_unsetEnv: "cacheTimeout unsetEnv = Num 10000"
  by (simp add: cacheTimeout_def unsetEnv_def num_or_def)

lemma crashPoint_zeroDigest: "calculateCrashPoint unsetEnv zeroDigest sd rid = Num (101 / 100)"
proof -
  have "parseInt16 (take 8 (digest_hex (zeroDigest k m))) = Num 0" for k m
    using hashNum_eq [of "zeroDigest k m"]
    by (simp add: zeroDigest_def be_uint_zeros)
  then show ?thesis
    by (simp add: calculateCrashPoint_def unsetEnv_crash num_sub_def Math_max_def Math_min_def)
qed

lemma cappedEnv_crash: "minCrashOf cappedEnv = Num (101 / 100)" "maxCrashOf cappedEnv = Num 1"
  "engineSecret cappedEnv = ''secret''" "cacheTimeout cappedEnv = Num 10000"
  by (simp_all add: minCrashOf_def maxCrashOf_def engineSecret_def cacheTimeout_def cappedEnv_def
        num_or_def)

text \<open>With the maximal crash point 1 and the minimal one above it, every round crashes at
  1, whatever the digest.\<close>

lemma crashPoint_capped:
  assumes "digest32 H"
  shows "calculateCrashPoint cappedEnv H sd rid = Num 1"
proof -
  let ?d = "H ''secret'' (sd @ rid)"
  let ?n = "be_uint (take 4 ?d)"
  have len: "4 \<le> length ?d" using assms by (simp add: digest32_def)
  have hn: "parseInt16 (take 8 (digest_hex ?d)) = Num (real ?n)"
    by (rule hashNum_eq [OF len])
  have "real ?n \<le> 4294967295" using hashNum_le [OF len] by linarith
  then have x0: "0 \<le> 1 - real ?n / 4294967295" by simp
  show ?thesis
  proof (cases "1 - real ?n / 4294967295 = 0")
    case True
    then show ?thesis
      by (simp add: calculateCrashPoint_def Let_def hn cappedEnv_crash num_sub_def
            Math_max_def Math_min_def)
  next
    case False
    with x0 have pos: "0 < 1 - real ?n / 4294967295" by linarith
    have le: "1 - real ?n / 4294967295 \<le> 1" by simp
    have l: "ln (1 - real ?n / 4294967295) \<le> 0"
      by (simp only: ln_le_zero_iff [OF pos] le)
    have v: "calculateCrashPoint cappedEnv H sd rid
        = Math_min (Math_max (Num (101 / 100 + ln (1 - real ?n / 4294967295) / (- (1 / 10))))
            (Num (101 / 100))) (Num 1)"
      using pos by (simp add: calculateCrashPoint_def Let_def hn cappedEnv_crash num_sub_def)
    from l have "0 \<le> ln (1 - real ?n / 4294967295) / (- (1 / 10))"
      by (simp add: divide_nonpos_neg)
    then have "1 < 101 / 100 + ln (1 - real ?n / 4294967295) / (- (1 / 10))" by linarith
    then show ?thesis unfolding v by (simp add: Math_max_def Math_min_def)
  qed
qed

theorem cashOut_only_while_active_witness:
  "digest32 zeroDigest \<and> num_lt (Num 1) (minCrashOf unsetEnv)
   \<and> num_le (minCrashOf unsetEnv) (maxCrashOf unsetEnv)
   \<and> map_option status (currentRound (gm (run unsetEnv zeroDigest zeroHash crashTrace booted)))
       = Some crashed
   \<and> exec unsetEnv zeroDigest zeroHash (inputAt 1001) (CashOut ''alice'')
        (run unsetEnv zeroDigest zeroHash crashTrace booted)
      = (run unsetEnv zeroDigest zeroHash crashTrace booted)
          \<lparr>settled := settled (run unsetEnv zeroDigest zeroHash crashTrace booted)
                       @ [(''alice'', CashOutRejected CannotCashOut)]\<rparr>
   \<and> (\<exists>g' b'. cashOut_begin (gm oneBetActive) ''alice'' = Inr (g', b')
         \<and> cashoutMultiplier b' = Some (Num 1))
   \<and> map_option (\<lambda>r. (status r, crashPoint r, settledBelow r)) (currentRound (gm oneBetActive))
       = Some (active, Num (101 / 100), True)
   \<and> map_option settledBelow (currentRound (gm oneBetCashedOut)) = Some True"
proof -
  have h1: "num_lt (Num 1) (minCrashOf unsetEnv)" by (simp add: unsetEnv_crash)
  have h2: "num_le (minCrashOf unsetEnv) (maxCrashOf unsetEnv)"
    by (simp add: unsetEnv_crash num_le_def num_ge_def)
  note d = digest32_zeroDigest
  have st: "map_option status (currentRound (gm (run unsetEnv zeroDigest zeroHash crashTrace booted)))
       = Some crashed"
    by (simp add: crashTrace_def run_defs crashPoint_zeroDigest cacheTimeout_unsetEnv num_ge_def)
  from cashOut_only_while_active [of unsetEnv zeroDigest zeroHash crashTrace
      "inputAt 0" alice Map.empty "inputAt 1001" "''alice''"] st
  have a: "exec unsetEnv zeroDigest zeroHash (inputAt 1001) (CashOut ''alice'')
        (run unsetEnv zeroDigest zeroHash crashTrace booted)
      = (run unsetEnv zeroDigest zeroHash crashTrace booted)
          \<lparr>settled := settled (run unsetEnv zeroDigest zeroHash crashTrace booted)
                       @ [(''alice'', CashOutRejected CannotCashOut)]\<rparr>"
    by (auto simp: booted_def)
  obtain r0 where r0: "currentRound (gm oneBetActive) = Some r0"
    and b0: "map (\<lambda>b. (playerId b, cashedOut b)) (bets r0) = [(''alice'', False)]"
    and a0: "isGameActive (gm oneBetActive)" "currentMultiplier (gm oneBetActive) = Num 1"
      "status r0 = active" "crashPoint r0 = Num (101 / 100)"
    by (simp add: oneBetActive_def oneBetActiveTrace_def run_defs toUpperCase_USDT
          cacheTimeout_unsetEnv crashPoint_zeroDigest)
  from b0 obtain x where x: "bets r0 = [x]" "playerId x = ''alice''" "\<not> cashedOut x"
    by (cases "bets r0") auto
  have c1: "cashOut_begin (gm oneBetActive) ''alice''
      = Inr ((gm oneBetActive)\<lparr>currentRound := Some (r0\<lparr>bets := [cashedOutBet (Num 1) x]\<rparr>)\<rparr>,
             cashedOutBet (Num 1) x)"
    by (simp add: cashOut_begin_def r0 a0 x)
  note t1 = cashOut_only_while_active [of unsetEnv zeroDigest zeroHash oneBetActiveTrace
      "inputAt 0" alice Map.empty "inputAt 3003" "''alice''", folded booted_def,
      folded oneBetActive_def]
  from t1 r0 c1 have m1: "cashoutMultiplier (cashedOutBet (Num 1) x) = Some (Num 1)"
    using a0(2) by auto
  from t1 r0 d h1 h2 have s1: "settledBelow r0" by auto
  have w2: "oneBetCashedOut
      = run unsetEnv zeroDigest zeroHash (oneBetActiveTrace @ [(inputAt 3003, CashOut ''alice'')])
          booted"
    by (simp add: oneBetCashedOut_def oneBetActive_def run_append)
  note t2 = cashOut_only_while_active [of unsetEnv zeroDigest zeroHash
      "oneBetActiveTrace @ [(inputAt 3003, CashOut ''alice'')]"
      "inputAt 0" alice Map.empty "inputAt 3004" "''alice''", folded booted_def, folded w2]
  from t2 d h1 h2 have s2: "map_option settledBelow (currentRound (gm oneBetCashedOut)) = Some True"
    by auto
  from d h1 h2 st a c1 m1 r0 a0 s1 s2 show ?thesis by auto
qed

text \<open>With the crash point at 1, a cash-out between the start of the game phase and the
  first tick is honoured at the multiplier 1, which is the crash point.\<close>

theorem cashOut_at_crashPoint_counterexample:
  "map_option (\<lambda>r. (status r, crashPoint r))
       (currentRound (gm (run cappedEnv zeroDigest zeroHash oneBetActiveTrace
                            (start cappedEnv zeroDigest zeroHash (inputAt 0) (boot alice Map.empty)))))
     = Some (active, Num 1)
   \<and> map snd (settled (run cappedEnv zeroDigest zeroHash (oneBetActiveTrace @ cashOutTrace)
                         (start cappedEnv zeroDigest zeroHash (inputAt 0) (boot alice Map.empty))))
     = [BetPlaced aliceBet,
        CashedOut (Num 1) (Some \<lparr>cryptoAmount_p = Num 50, usdAmount_p = Num 50\<rparr>)]
   \<and> map_option (\<lambda>r. (status r, map cashoutMultiplier (bets r), num_ge (Num 1) (crashPoint r),
                      settledBelow r))
       (currentRound (gm (run cappedEnv zeroDigest zeroHash (oneBetActiveTrace @ cashOutTrace)
                            (start cappedEnv zeroDigest zeroHash (inputAt 0) (boot alice Map.empty)))))
     = Some (active, [Some (Num 1)], True, False)"
  by (simp add: oneBetActiveTrace_def cashOutTrace_def aliceBet_def run_defs toUpperCase_USDT
        cappedEnv_crash crashPoint_capped [OF digest32_zeroDigest] num_ge_def settledBelow_def)

lemma settleFirst_unsettled:
  "settleFirst pid m bs = Some (bs', b') \<Longrightarrow>
     cashedOut b' \<and> cashoutMultiplier b' = Some m \<and> payout b' \<noteq> None \<and> playerId b' = pid
     \<and> length (filter (\<lambda>b. playerId b = pid \<and> \<not> cashedOut b) bs)
         = Suc (length (filter (\<lambda>b. playerId b = pid \<and> \<not> cashedOut b) bs'))"
proof (induction bs arbitrary: bs')
  case Nil
  then show ?case by simp
next
  case (Cons b bs)
  show ?case
  proof (cases "playerId b = pid \<and> \<not> cashedOut b")
    case True
    with Cons.prems show ?thesis by (auto simp: cashedOutBet_def Let_def)
  next
    case False
    with Cons.prems obtain bs0 where s: "settleFirst pid m bs = Some (bs0, b')" and b: "bs' = b # bs0"
      by (auto split: option.splits)
    from Cons.IH [OF s] False b show ?thesis by auto
  qed
qed

lemma settleFirst_None:
  "filter (\<lambda>b. playerId b = pid \<and> \<not> cashedOut b) bs = [] \<Longrightarrow> settleFirst pid m bs = None"
  by (induction bs) (auto split: if_splits)

lemma cashOut_begin_success:
  assumes "cashOut_begin g pid = Inr (g', b')"
  shows "cashedOut b' \<and> cashoutMultiplier b' = Some (currentMultiplier g) \<and> payout b' \<noteq> None
       \<and> unsettled pid g = Suc (unsettled pid g')
       \<and> isGameActive g' = isGameActive g \<and> currentRound g' \<noteq> None"
proof -
  from assms obtain r bs' where r: "currentRound g = Some r"
    and sf: "settleFirst pid (currentMultiplier g) (bets r) = Some (bs', b')"
    and g': "g' = g\<lparr>currentRound := Some (r\<lparr>bets := bs'\<rparr>)\<rparr>"
    by (auto simp: cashOut_begin_def split: option.splits if_splits)
  from settleFirst_unsettled [OF sf] r g' show ?thesis
    by (simp add: unsettled_def)
qed

lemma cashOut_begin_none:
  assumes "isGameActive g" and "currentRound g \<noteq> None" and "unsettled pid g = 0"
  shows "cashOut_begin g pid = Inl NoActiveBet"
  using assms by (auto simp: cashOut_begin_def unsettled_def settleFirst_None)

lemma betKept_settled: "betKept w b b' \<Longrightarrow> cashedOut b \<Longrightarrow> b' = b"
  by (auto simp: betKept_def)

lemma roundKept_settled:
  assumes "roundKept w r r'" and "k < length (bets r)" and "cashedOut (bets r ! k)"
  shows "k < length (bets r') \<and> bets r' ! k = bets r ! k"
proof -
  from assms(1) have l: "list_all2 (betKept w) (bets r) (take (length (bets r)) (bets r'))"
    by (simp add: roundKept_def)
  then have len: "length (bets r) = length (take (length (bets r)) (bets r'))"
    by (rule list_all2_lengthD)
  with assms(2) have k: "k < length (bets r')" by simp
  from l assms(2) have "betKept w (bets r ! k) (take (length (bets r)) (bets r') ! k)"
    by (rule list_all2_nthD)
  with assms(2,3) have "take (length (bets r)) (bets r') ! k = bets r ! k"
    by (simp add: betKept_settled)
  with assms(2) k show ?thesis by simp
qed

text \<open>
  Claim C4, as amended. Every bet is settled at most once. A \<open>cashOut\<close> that succeeds
  settles one bet, the first of the player's bets in the round that is not cashed out, and
  writes \<open>cashedOut\<close>, \<open>cashoutMultiplier\<close> and \<open>payout\<close> in the same step; the player
  then has one unsettled bet fewer. No event changes a bet that is cashed out, unless a new
  round replaces the round. A \<open>cashOut\<close> for a player with no unsettled bet fails with
  ``No active bet'': so when a player holds one bet in the round, a second \<open>cashOut\<close>
  fails. (A player holding several bets can cash out once for each.)
\<close>

theorem bet_settled_once:
  "(\<forall>r k. currentRound (gm w) = Some r \<and> k < length (bets r) \<and> cashedOut (bets r ! k) \<longrightarrow>
      (\<exists>r'. currentRound (gm (exec e H S i ev w)) = Some r'
         \<and> (roundFresh r' \<or> (k < length (bets r') \<and> bets r' ! k = bets r ! k))))
   \<and> (\<forall>g' b'. cashOut_begin g pid = Inr (g', b') \<longrightarrow>
         cashedOut b' \<and> cashoutMultiplier b' = Some (currentMultiplier g) \<and> payout b' \<noteq> None
       \<and> unsettled pid g = Suc (unsettled pid g')
       \<and> (unsettled pid g = 1 \<longrightarrow> cashOut_begin g' pid = Inl NoActiveBet))
   \<and> (isGameActive g \<and> currentRound g \<noteq> None \<and> unsettled pid g = 0 \<longrightarrow>
         cashOut_begin g pid = Inl NoActiveBet)"
proof (intro conjI allI impI)
  fix r k
  assume a: "currentRound (gm w) = Some r \<and> k < length (bets r) \<and> cashedOut (bets r ! k)"
  from exec_round [of w r e H S i ev] a obtain r'
    where r': "currentRound (gm (exec e H S i ev w)) = Some r'"
      and kf: "roundKept w r r' \<or> roundFresh r'" by blast
  from kf a have "roundFresh r' \<or> (k < length (bets r') \<and> bets r' ! k = bets r ! k)"
    by (auto dest: roundKept_settled)
  with r' show "\<exists>r'. currentRound (gm (exec e H S i ev w)) = Some r'
         \<and> (roundFresh r' \<or> (k < length (bets r') \<and> bets r' ! k = bets r ! k))"
    by blast
next
  fix g' b'
  assume s: "cashOut_begin g pid = Inr (g', b')"
  from cashOut_begin_success [OF s]
  show "cashedOut b'" "cashoutMultiplier b' = Some (currentMultiplier g)" "payout b' \<noteq> None"
    "unsettled pid g = Suc (unsettled pid g')"
    by simp_all
  assume one: "unsettled pid g = 1"
  from s have "isGameActive g" by (auto simp: cashOut_begin_def split: option.splits if_splits)
  with cashOut_begin_success [OF s] one show "cashOut_begin g' pid = Inl NoActiveBet"
    by (intro cashOut_begin_none) auto
next
  assume "isGameActive g \<and> currentRound g \<noteq> None \<and> unsettled pid g = 0"
  then show "cashOut_begin g pid = Inl NoActiveBet"
    by (simp add: cashOut_begin_none)
qed

theorem two_cashOuts_counterexample:
  "map snd (settled (run unsetEnv zeroDigest zeroHash twoCashOutsTrace booted))
     = [BetPlaced aliceBet, BetPlaced aliceBet,
        CashedOut (Num 1) (Some \<lparr>cryptoAmount_p = Num 50, usdAmount_p = Num 50\<rparr>),
        CashedOut (Num 1) (Some \<lparr>cryptoAmount_p = Num 50, usdAmount_p = Num 50\<rparr>)]"
  by (simp add: twoCashOutsTrace_def twoBetsTrace_def aliceBet_def run_defs toUpperCase_USDT
        cacheTimeout_unsetEnv)

theorem bet_settled_once_witness:
  "(\<exists>g' b'. cashOut_begin (gm oneBetActive) ''alice'' = Inr (g', b')
        \<and> unsettled ''alice'' (gm oneBetActive) = 1
        \<and> cashedOut b' \<and> cashoutMultiplier b' = Some (Num 1)
        \<and> cashOut_begin g' ''alice'' = Inl NoActiveBet)
   \<and> isGameActive (gm oneBetCashedOut) \<and> currentRound (gm oneBetCashedOut) \<noteq> None
   \<and> unsettled ''alice'' (gm oneBetCashedOut) = 0
   \<and> cashOut_begin (gm oneBetCashedOut) ''alice'' = Inl NoActiveBet
   \<and> map_option (\<lambda>r. cashedOut (bets r ! 0)) (currentRound (gm oneBetCashedOut)) = Some True
   \<and> map_option (\<lambda>r. bets r ! 0)
        (currentRound (gm (exec unsetEnv zeroDigest zeroHash (inputAt 3004) (CashOut ''alice'')
                             oneBetCashedOut)))
      = map_option (\<lambda>r. bets r ! 0) (currentRound (gm oneBetCashedOut))"
proof -
  obtain r0 where r0: "currentRound (gm oneBetActive) = Some r0"
    and b0: "map (\<lambda>b. (playerId b, cashedOut b)) (bets r0) = [(''alice'', False)]"
    and a0: "isGameActive (gm oneBetActive)" "currentMultiplier (gm oneBetActive) = Num 1"
    by (simp add: oneBetActive_def oneBetActiveTrace_def run_defs toUpperCase_USDT
          cacheTimeout_unsetEnv)
  from b0 obtain x where x: "bets r0 = [x]" "playerId x = ''alice''" "\<not> cashedOut x"
    by (cases "bets r0") auto
  have u1: "unsettled ''alice'' (gm oneBetActive) = 1"
    by (simp add: unsettled_def r0 x)
  define g1 where "g1 = (gm oneBetActive)\<lparr>currentRound := Some (r0\<lparr>bets := [cashedOutBet (Num 1) x]\<rparr>)\<rparr>"
  have c1: "cashOut_begin (gm oneBetActive) ''alice'' = Inr (g1, cashedOutBet (Num 1) x)"
    by (simp add: cashOut_begin_def r0 a0 x g1_def)
  note t1 = bet_settled_once [of oneBetActive unsetEnv zeroDigest zeroHash "inputAt 3003"
      "CashOut ''alice''" "gm oneBetActive" "''alice''"]
  from t1 c1 u1 a0 have first: "cashedOut (cashedOutBet (Num 1) x)"
    "cashoutMultiplier (cashedOutBet (Num 1) x) = Some (Num 1)"
    "cashOut_begin g1 ''alice'' = Inl NoActiveBet"
    by auto
  have w2: "gm oneBetCashedOut = g1"
    by (simp add: oneBetCashedOut_def exec_def cashOut_def c1 suspendP_def)
  have r2: "currentRound g1 = Some (r0\<lparr>bets := [cashedOutBet (Num 1) x]\<rparr>)"
    by (simp add: g1_def)
  have a2: "isGameActive g1" "currentRound g1 \<noteq> None" using a0 by (simp_all add: g1_def)
  have u2: "unsettled ''alice'' g1 = 0"
    using first(1) by (simp add: unsettled_def g1_def)
  note t2 = bet_settled_once [of oneBetCashedOut unsetEnv zeroDigest zeroHash "inputAt 3004"
      "CashOut ''alice''" g1 "''alice''"]
  from t2 a2 u2 have none: "cashOut_begin g1 ''alice'' = Inl NoActiveBet" by blast
  have s2: "map_option (\<lambda>r. cashedOut (bets r ! 0)) (currentRound (gm oneBetCashedOut)) = Some True"
    using first(1) by (simp add: w2 r2)
  have "exec unsetEnv zeroDigest zeroHash (inputAt 3004) (CashOut ''alice'') oneBetCashedOut
      = settle ''alice'' (CashOutRejected NoActiveBet) oneBetCashedOut"
    by (simp add: exec_def cashOut_def w2 none)
  then have same: "currentRound (gm (exec unsetEnv zeroDigest zeroHash (inputAt 3004) (CashOut ''alice'')
                 oneBetCashedOut)) = currentRound (gm oneBetCashedOut)"
    by (simp add: settle_def)
  show ?thesis
    using c1 u1 first a2 u2 none s2 same by (simp add: w2)
qed

lemma dropNth_last: "dropNth (length xs) (xs @ [x]) = xs"
  by (simp add: dropNth_def)

lemma resume_last:
  "exec e H S i (ResumePlayer (length (ptasks w))) (suspendP t w) = resumePlayer i t w"
  by (simp add: exec_def suspendP_def dropNth_last)

lemma resume_none: "exec e H S i (ResumePlayer (length (ptasks w))) w = w"
  by (simp add: exec_def)

lemma ptasks_settle: "ptasks (settle pid s w) = ptasks w"
  by (simp add: settle_def)

lemma ptasks_emit: "ptasks (emit n b w) = ptasks w"
  by (simp add: emit_def)

lemma placeBetRest_insufficient:
  assumes "players w pid = Some wal" and "num_lt (balanceOf wal cur) (num_div usd p)"
  shows "placeBetRest e H S i (length (ptasks w)) (suspendP (PlaceBet_Find pid usd cur p) w)
           = settle pid (BetRejected InsufficientBalance) w"
  using assms
  by (simp add: placeBetRest_def resume_last resumePlayer_def placeBet_found_def
        resume_none [of _ _ _ _ "settle pid (BetRejected InsufficientBalance) w", simplified ptasks_settle]
        Let_def)

lemma placeBetRest_noPlayer:
  assumes "players w pid = None"
  shows "placeBetRest e H S i (length (ptasks w)) (suspendP (PlaceBet_Find pid usd cur p) w)
           = settle pid (BetRejected InsufficientBalance) w"
  using assms
  by (simp add: placeBetRest_def resume_last resumePlayer_def placeBet_found_def
        resume_none [of _ _ _ _ "settle pid (BetRejected InsufficientBalance) w", simplified ptasks_settle]
        Let_def)

lemma placeBetRest_saveFailed:
  assumes "players w pid = Some wal" and "\<not> num_lt (balanceOf wal cur) (num_div usd p)"
    and "\<not> saveOk i \<or> \<not> validates cur (num_sub (balanceOf wal cur) (num_div usd p))"
  shows "placeBetRest e H S i (length (ptasks w)) (suspendP (PlaceBet_Find pid usd cur p) w)
           = settle pid (BetRejected SaveFailed) w"
  using assms
  by (simp add: placeBetRest_def resume_last resumePlayer_def placeBet_found_def
        placeBet_savedPlayer_def
        resume_none [of _ _ _ _ "settle pid (BetRejected SaveFailed) w", simplified ptasks_settle]
        Let_def)

lemma placeBetRest_placed:
  assumes "players w pid = Some wal" and "\<not> num_lt (balanceOf wal cur) (num_div usd p)"
    and "saveOk i" and "validates cur (num_sub (balanceOf wal cur) (num_div usd p))"
    and "currentRound (gm w) = Some r"
  shows "\<exists>w'. placeBetRest e H S i (length (ptasks w)) (suspendP (PlaceBet_Find pid usd cur p) w) = w'
     \<and> settled w' = settled w @ [(pid, BetPlaced (betOf i pid usd cur p))]
     \<and> players w' = (players w)(pid \<mapsto> setBalance wal cur (num_sub (balanceOf wal cur) (num_div usd p)))
     \<and> (\<exists>r'. currentRound (gm w') = Some r' \<and> bets r' = bets r @ [castBet (betOf i pid usd cur p)]
             \<and> status r' = status r \<and> roundId r' = roundId r)
     \<and> ptasks w' = ptasks w \<and> etasks w' = etasks w \<and> timers w' = timers w
     \<and> priceCache (gm w') = priceCache (gm w)"
  using assms
  by (simp add: placeBetRest_def resume_last resumePlayer_def placeBet_found_def
        placeBet_savedPlayer_def placeBet_finish_def betOf_def writeBalance_def
        safeSave_begin_def safeSave_end_def settle_def emit_def exec_def suspendP_def dropNth_last
        Let_def)

lemma withCache_simps:
  "ptasks (withCache c w) = ptasks w" "players (withCache c w) = players w"
  "settled (withCache c w) = settled w" "currentRound (gm (withCache c w)) = currentRound (gm w)"
  "etasks (withCache c w) = etasks w" "timers (withCache c w) = timers w"
  by (simp_all add: withCache_def)

lemma placeBetAlone_closed:
  assumes "currentRound (gm w) = Some r" and "status r \<noteq> waiting"
  shows "placeBetAlone e H S i pid usd cur w = settle pid (BetRejected BettingNotAllowed) w"
  using assms
  by (simp add: placeBetAlone_def exec_def placeBet_def settle_def Let_def)

lemma placeBetAlone_noPrice:
  assumes "currentRound (gm w) = Some r" and "status r = waiting"
    and "getPrice e (priceCache (gm w)) (now i) cur (apiResponse i) = (Thrown msg, c)"
  shows "placeBetAlone e H S i pid usd cur w
           = settle pid (BetRejected (PriceUnavailable msg)) (withCache c w)"
proof (cases "getPrice_begin e (priceCache (gm w)) (now i) cur")
  case (PriceDone res c0)
  with assms show ?thesis
    by (simp add: placeBetAlone_def exec_def placeBet_def settle_def getPrice_def withCache_def Let_def)
next
  case (PriceFetch coin)
  with assms have "getPrice_resume (priceCache (gm w)) (now i) cur (apiResponse i) = (Thrown msg, c)"
    by (simp add: getPrice_def)
  with PriceFetch assms(1,2) show ?thesis
    by (simp add: placeBetAlone_def exec_def placeBet_def suspendP_def dropNth_last
          resumePlayer_def placeBet_priced_def settle_def withCache_def Let_def)
qed

lemma placeBetAlone_priced:
  assumes "currentRound (gm w) = Some r" and "status r = waiting"
    and "getPrice e (priceCache (gm w)) (now i) cur (apiResponse i) = (Returned p, c)"
    and "ptasks (placeBetRest e H S i (length (ptasks w))
                   (suspendP (PlaceBet_Find pid usd cur p) (withCache c w))) = ptasks w"
  shows "placeBetAlone e H S i pid usd cur w
           = placeBetRest e H S i (length (ptasks w))
               (suspendP (PlaceBet_Find pid usd cur p) (withCache c w))"
proof (cases "getPrice_begin e (priceCache (gm w)) (now i) cur")
  case (PriceDone res c0)
  with assms(3) have res: "res = Returned p" "c0 = c" by (simp_all add: getPrice_def)
  let ?w' = "placeBetRest e H S i (length (ptasks w))
               (suspendP (PlaceBet_Find pid usd cur p) (withCache c w))"
  have "placeBetAlone e H S i pid usd cur w = exec e H S i (ResumePlayer (length (ptasks w))) ?w'"
    using PriceDone res assms(1,2)
    by (simp add: placeBetAlone_def placeBetRest_def withCache_def exec_def [of _ _ _ _ "PlaceBet _ _ _"]
          placeBet_def Let_def)
  also have "\<dots> = ?w'"
    using resume_none [of e H S i ?w'] assms(4) by simp
  finally show ?thesis .
next
  case (PriceFetch coin)
  with assms(3) have "getPrice_resume (priceCache (gm w)) (now i) cur (apiResponse i) = (Returned p, c)"
    by (simp add: getPrice_def)
  with PriceFetch assms(1,2) show ?thesis
    by (simp add: placeBetAlone_def placeBetRest_def withCache_def exec_def [of _ _ _ _ "PlaceBet _ _ _"]
          placeBet_def resume_last resumePlayer_def placeBet_priced_def Let_def)
qed

lemma placeBetAlone_insufficient:
  assumes "currentRound (gm w) = Some r" and "status r = waiting"
    and "getPrice e (priceCache (gm w)) (now i) cur (apiResponse i) = (Returned p, c)"
    and "players w pid = None \<or> (\<exists>wal. players w pid = Some wal \<and> num_lt (balanceOf wal cur) (num_div usd p))"
  shows "placeBetAlone e H S i pid usd cur w
           = settle pid (BetRejected InsufficientBalance) (withCache c w)"
proof -
  let ?w1 = "withCache c w"
  have rest: "placeBetRest e H S i (length (ptasks w)) (suspendP (PlaceBet_Find pid usd cur p) ?w1)
           = settle pid (BetRejected InsufficientBalance) ?w1"
    using assms(4)
      placeBetRest_noPlayer [of ?w1 pid e H S i usd cur p]
      placeBetRest_insufficient [of ?w1 pid _ cur usd p e H S i]
    by (auto simp: withCache_simps)
  show ?thesis
    using placeBetAlone_priced [OF assms(1-3), of H S pid usd] rest
    by (simp add: ptasks_settle withCache_simps)
qed

lemma placeBetAlone_saveFailed:
  assumes "currentRound (gm w) = Some r" and "status r = waiting"
    and "getPrice e (priceCache (gm w)) (now i) cur (apiResponse i) = (Returned p, c)"
    and "players w pid = Some wal" and "\<not> num_lt (balanceOf wal cur) (num_div usd p)"
    and "\<not> saveOk i \<or> \<not> validates cur (num_sub (balanceOf wal cur) (num_div usd p))"
  shows "placeBetAlone e H S i pid usd cur w = settle pid (BetRejected SaveFailed) (withCache c w)"
proof -
  let ?w1 = "withCache c w"
  have rest: "placeBetRest e H S i (length (ptasks w)) (suspendP (PlaceBet_Find pid usd cur p) ?w1)
           = settle pid (BetRejected SaveFailed) ?w1"
    using placeBetRest_saveFailed [of ?w1 pid wal cur usd p i e H S] assms(4-6)
    by (simp add: withCache_simps)
  show ?thesis
    using placeBetAlone_priced [OF assms(1-3), of H S pid usd] rest
    by (simp add: ptasks_settle withCache_simps)
qed

lemma placeBetAlone_placed:
  assumes "currentRound (gm w) = Some r" and "status r = waiting"
    and "getPrice e (priceCache (gm w)) (now i) cur (apiResponse i) = (Returned p, c)"
    and "players w pid = Some wal" and "\<not> num_lt (balanceOf wal cur) (num_div usd p)"
    and "saveOk i" and "validates cur (num_sub (balanceOf wal cur) (num_div usd p))"
  shows "settled (placeBetAlone e H S i pid usd cur w)
           = settled w @ [(pid, BetPlaced (betOf i pid usd cur p))]
       \<and> players (placeBetAlone e H S i pid usd cur w)
           = (players w)(pid \<mapsto> setBalance wal cur (num_sub (balanceOf wal cur) (num_div usd p)))
       \<and> map_option bets (currentRound (gm (placeBetAlone e H S i pid usd cur w)))
           = Some (bets r @ [castBet (betOf i pid usd cur p)])"
proof -
  let ?w1 = "withCache c w"
  from placeBetRest_placed [of ?w1 pid wal cur usd p i r e H S] assms(1,4-7)
  have rest: "settled (placeBetRest e H S i (length (ptasks w)) (suspendP (PlaceBet_Find pid usd cur p) ?w1))
           = settled w @ [(pid, BetPlaced (betOf i pid usd cur p))]"
    "players (placeBetRest e H S i (length (ptasks w)) (suspendP (PlaceBet_Find pid usd cur p) ?w1))
           = (players w)(pid \<mapsto> setBalance wal cur (num_sub (balanceOf wal cur) (num_div usd p)))"
    "map_option bets (currentRound (gm (placeBetRest e H S i (length (ptasks w))
         (suspendP (PlaceBet_Find pid usd cur p) ?w1))))
           = Some (bets r @ [castBet (betOf i pid usd cur p)])"
    "ptasks (placeBetRest e H S i (length (ptasks w)) (suspendP (PlaceBet_Find pid usd cur p) ?w1))
           = ptasks w"
    by (auto simp: withCache_simps)
  from placeBetAlone_priced [OF assms(1-3), of H S pid usd] rest(4)
  have "placeBetAlone e H S i pid usd cur w
      = placeBetRest e H S i (length (ptasks w)) (suspendP (PlaceBet_Find pid usd cur p) ?w1)"
    by simp
  with rest(1-3) show ?thesis by simp
qed

lemma placeBetAlone_rejected:
  assumes "currentRound (gm w) = Some r"
    and "settled (placeBetAlone e H S i pid usd cur w) = settled w @ [(pid, BetRejected err)]"
  shows "players (placeBetAlone e H S i pid usd cur w) = players w
       \<and> map_option bets (currentRound (gm (placeBetAlone e H S i pid usd cur w))) = Some (bets r)"
proof (cases "status r = waiting")
  case False
  with assms(1) show ?thesis by (simp add: placeBetAlone_closed settle_def)
next
  case True
  obtain res c where g: "getPrice e (priceCache (gm w)) (now i) cur (apiResponse i) = (res, c)"
    by (cases "getPrice e (priceCache (gm w)) (now i) cur (apiResponse i)")
  show ?thesis
  proof (cases res)
    case (Thrown msg)
    with g assms(1) True show ?thesis
      by (simp add: placeBetAlone_noPrice settle_def withCache_def)
  next
    case (Returned p)
    show ?thesis
    proof (cases "players w pid = None \<or> (\<exists>wal. players w pid = Some wal \<and> num_lt (balanceOf wal cur) (num_div usd p))")
      case True
      from placeBetAlone_insufficient [OF assms(1) \<open>status r = waiting\<close> g [unfolded Returned] True]
      show ?thesis using assms(1) by (simp add: settle_def withCache_def)
    next
      case False
      then obtain wal where wal: "players w pid = Some wal"
        and suff: "\<not> num_lt (balanceOf wal cur) (num_div usd p)" by auto
      show ?thesis
      proof (cases "saveOk i \<and> validates cur (num_sub (balanceOf wal cur) (num_div usd p))")
        case False
        then have "\<not> saveOk i \<or> \<not> validates cur (num_sub (balanceOf wal cur) (num_div usd p))"
          by simp
        from placeBetAlone_saveFailed [OF assms(1) \<open>status r = waiting\<close> g [unfolded Returned] wal suff this]
        show ?thesis using assms(1) by (simp add: settle_def withCache_def)
      next
        case True
        then have ok: "saveOk i" "validates cur (num_sub (balanceOf wal cur) (num_div usd p))"
          by simp_all
        from placeBetAlone_placed [OF assms(1) \<open>status r = waiting\<close> g [unfolded Returned] wal suff ok]
          assms(2)
        show ?thesis by simp
      qed
    qed
  qed
qed

text \<open>
  Claim C5, as amended. \<open>placeBet\<close> has no check for a duplicate. For a player who
  already holds an outstanding bet in the current round, a second \<open>placeBet\<close> (run without
  interleaving) succeeds whenever the round is waiting, a price is obtained, the balance
  read is not below the amount and the player document is saved (the database carries the
  write out and the new balance passes the validation of the schema): a further bet is
  appended to the round and the wallet is debited again. When the call is rejected, for
  whatever reason, the bets of the round and the wallets are unchanged.
\<close>

theorem second_bet_accepted:
  assumes "currentRound (gm w) = Some r"
    and "list_ex (\<lambda>b. playerId b = pid \<and> \<not> cashedOut b) (bets r)"
  shows "(status r = waiting
          \<and> getPrice e (priceCache (gm w)) (now i) cur (apiResponse i) = (Returned p, c)
          \<and> players w pid = Some wal \<and> \<not> num_lt (balanceOf wal cur) (num_div usd p)
          \<and> saveOk i \<and> validates cur (num_sub (balanceOf wal cur) (num_div usd p))
          \<longrightarrow> settled (placeBetAlone e H S i pid usd cur w)
                 = settled w @ [(pid, BetPlaced (betOf i pid usd cur p))]
              \<and> players (placeBetAlone e H S i pid usd cur w)
                 = (players w)(pid \<mapsto> setBalance wal cur (num_sub (balanceOf wal cur) (num_div usd p)))
              \<and> map_option bets (currentRound (gm (placeBetAlone e H S i pid usd cur w)))
                 = Some (bets r @ [castBet (betOf i pid usd cur p)]))
       \<and> (settled (placeBetAlone e H S i pid usd cur w) = settled w @ [(pid, BetRejected err)]
          \<longrightarrow> players (placeBetAlone e H S i pid usd cur w) = players w
              \<and> map_option bets (currentRound (gm (placeBetAlone e H S i pid usd cur w)))
                 = Some (bets r))"
  using placeBetAlone_placed [OF assms(1), of e i cur p c pid wal usd H S]
    placeBetAlone_rejected [OF assms(1), of e H S i pid usd cur err]
  by blast

theorem second_bet_counterexample:
  "map snd (settled (run unsetEnv zeroDigest zeroHash twoBetsTrace booted))
     = [BetPlaced aliceBet, BetPlaced aliceBet]
   \<and> map_option (map playerId \<circ> bets)
        (currentRound (gm (run unsetEnv zeroDigest zeroHash twoBetsTrace booted)))
     = Some [''alice'', ''alice'']
   \<and> players (run unsetEnv zeroDigest zeroHash twoBetsTrace booted) ''alice''
     = Some \<lparr>BTC = Num 0, ETH = Num 0, USDT = Num 0\<rparr>"
  by (simp add: twoBetsTrace_def aliceBet_def run_defs toUpperCase_USDT cacheTimeout_unsetEnv)

lemma oneBetWaiting_facts:
  "\<exists>r wal c. currentRound (gm oneBetWaiting) = Some r \<and> status r = waiting
     \<and> map playerId (bets r) = [''alice''] \<and> map cashedOut (bets r) = [False]
     \<and> players oneBetWaiting ''alice'' = Some wal \<and> balanceOf wal ''USDT'' = Num 50
     \<and> getPrice unsetEnv (priceCache (gm oneBetWaiting)) 6 ''USDT'' ApiError = (Returned (Num 1), c)
     \<and> ptasks oneBetWaiting = [] \<and> settled oneBetWaiting = [(''alice'', BetPlaced aliceBet)]"
  by (simp add: oneBetWaiting_def oneBetTrace_def aliceBet_def run_defs toUpperCase_USDT
        cacheTimeout_unsetEnv getPrice_def)

theorem second_bet_accepted_witness:
  "map_option (\<lambda>r. (status r, map playerId (bets r), map cashedOut (bets r)))
       (currentRound (gm oneBetWaiting)) = Some (waiting, [''alice''], [False])
   \<and> settled (placeBetAlone unsetEnv zeroDigest zeroHash (inputAt 6) ''alice'' (Num 50) ''USDT''
                oneBetWaiting)
       = [(''alice'', BetPlaced aliceBet), (''alice'', BetPlaced aliceBet)]
   \<and> map_option (map playerId \<circ> bets)
        (currentRound (gm (placeBetAlone unsetEnv zeroDigest zeroHash (inputAt 6) ''alice''
                             (Num 50) ''USDT'' oneBetWaiting)))
       = Some [''alice'', ''alice'']
   \<and> settled (placeBetAlone unsetEnv zeroDigest zeroHash (inputAt 6) ''alice'' (Num 500) ''USDT''
                oneBetWaiting)
       = [(''alice'', BetPlaced aliceBet), (''alice'', BetRejected InsufficientBalance)]
   \<and> players (placeBetAlone unsetEnv zeroDigest zeroHash (inputAt 6) ''alice'' (Num 500) ''USDT''
                oneBetWaiting)
       = players oneBetWaiting"
proof -
  from oneBetWaiting_facts obtain r wal c where r: "currentRound (gm oneBetWaiting) = Some r"
    and st: "status r = waiting"
    and b: "map playerId (bets r) = [''alice'']" "map cashedOut (bets r) = [False]"
    and wal: "players oneBetWaiting ''alice'' = Some wal" "balanceOf wal ''USDT'' = Num 50"
    and g: "getPrice unsetEnv (priceCache (gm oneBetWaiting)) 6 ''USDT'' ApiError = (Returned (Num 1), c)"
    and s: "settled oneBetWaiting = [(''alice'', BetPlaced aliceBet)]"
    by (elim exE conjE)
  from b obtain x where x: "bets r = [x]" "playerId x = ''alice''" "\<not> cashedOut x"
    by (cases "bets r") auto
  then have dup: "list_ex (\<lambda>b. playerId b = ''alice'' \<and> \<not> cashedOut b) (bets r)" by simp
  have i6: "now (inputAt 6) = 6" "apiResponse (inputAt 6) = ApiError" "saveOk (inputAt 6)"
    "betOf (inputAt 6) ''alice'' (Num 50) ''USDT'' (Num 1) = aliceBet"
    by (simp_all add: inputAt_def betOf_def aliceBet_def)
  have v: "validates ''USDT'' (num_sub (Num 50) (num_div (Num 50) (Num 1)))"
    by (simp add: validates_def validBalance_def num_sub_def)
  note t = second_bet_accepted [OF r dup, of unsetEnv "inputAt 6" "''USDT''" "Num 1" c wal _
      zeroDigest zeroHash]
  from t [of "Num 50" InsufficientBalance] st g wal i6 s x v
  have placed: "settled (placeBetAlone unsetEnv zeroDigest zeroHash (inputAt 6) ''alice'' (Num 50)
                  ''USDT'' oneBetWaiting) = [(''alice'', BetPlaced aliceBet), (''alice'', BetPlaced aliceBet)]"
    "map_option (map playerId \<circ> bets)
        (currentRound (gm (placeBetAlone unsetEnv zeroDigest zeroHash (inputAt 6) ''alice''
                             (Num 50) ''USDT'' oneBetWaiting))) = Some [''alice'', ''alice'']"
    by (auto simp: castBet_def aliceBet_def)
  have rej: "settled (placeBetAlone unsetEnv zeroDigest zeroHash (inputAt 6) ''alice'' (Num 500)
                ''USDT'' oneBetWaiting)
           = settled oneBetWaiting @ [(''alice'', BetRejected InsufficientBalance)]"
    using placeBetAlone_insufficient [OF r st, of unsetEnv "inputAt 6" "''USDT''" "Num 1" c
        "''alice''" "Num 500" zeroDigest zeroHash] g wal i6
    by (simp add: settle_def withCache_def)
  from t [of "Num 500" InsufficientBalance] rej
  have "players (placeBetAlone unsetEnv zeroDigest zeroHash (inputAt 6) ''alice'' (Num 500) ''USDT''
                oneBetWaiting) = players oneBetWaiting" by blast
  with placed rej s r st b show ?thesis by simp
qed

lemma num_sub_not_negative: "\<not> num_lt a b \<Longrightarrow> \<not> num_lt (num_sub a b) (Num 0)"
  by (cases a; cases b) (auto simp: num_sub_def)

lemma ptasks_stop: "ptasks (stop w) = ptasks w"
  by (simp add: stop_def clearTimer_def split: option.splits)

lemma ptasks_endRound: "ptasks (endRound cl i w) = ptasks w"
  by (simp add: endRound_def endRound_save_def safeSave_begin_def suspendE_def Let_def
        split: option.splits)

lemma ptasks_updateMultiplier: "ptasks (updateMultiplier i w) = ptasks w"
  by (simp add: updateMultiplier_def crashGame_def endRound_def endRound_save_def
        safeSave_begin_def suspendE_def clearTimer_def emit_def Let_def split: option.splits)

lemma ptasks_startGamePhase: "ptasks (startGamePhase i w) = ptasks w"
  by (simp add: startGamePhase_def safeSave_begin_def suspendE_def Let_def split: option.splits)

lemma ptasks_startNewRound: "ptasks (startNewRound e H S i w) = ptasks w"
  by (simp add: startNewRound_def startNewRound_create_def ptasks_endRound suspendE_def Let_def)

lemma ptasks_fire: "ptasks (fire e H S i h w) = ptasks w"
  by (simp add: fire_def runCallback_def ptasks_startGamePhase ptasks_updateMultiplier
        ptasks_startNewRound clearTimer_def split: option.splits timer.splits callback.splits)

lemma ptasks_resumeEngine: "ptasks (resumeEngine e H S i t w) = ptasks w"
  by (simp add: resumeEngine_def afterEndRound_def endRound_save_def safeSave_begin_def
        safeSave_end_def suspendE_def crashGame_finish_def startNewRound_create_def
        startNewRound_saved_def startGamePhase_saved_def setTimer_def emit_def Let_def
        split: etask.splits caller.splits option.splits)

lemma players_stop: "players (stop w) = players w"
  by (simp add: stop_def clearTimer_def split: option.splits)

lemma players_endRound: "players (endRound cl i w) = players w"
  by (simp add: endRound_def endRound_save_def safeSave_begin_def suspendE_def Let_def
        split: option.splits)

lemma players_updateMultiplier: "players (updateMultiplier i w) = players w"
  by (simp add: updateMultiplier_def crashGame_def endRound_def endRound_save_def
        safeSave_begin_def suspendE_def clearTimer_def emit_def Let_def split: option.splits)

lemma players_startGamePhase: "players (startGamePhase i w) = players w"
  by (simp add: startGamePhase_def safeSave_begin_def suspendE_def Let_def split: option.splits)

lemma players_startNewRound: "players (startNewRound e H S i w) = players w"
  by (simp add: startNewRound_def startNewRound_create_def players_endRound suspendE_def Let_def)

lemma players_fire: "players (fire e H S i h w) = players w"
  by (simp add: fire_def runCallback_def players_startGamePhase players_updateMultiplier
        players_startNewRound clearTimer_def split: option.splits timer.splits callback.splits)

lemma players_resumeEngine: "players (resumeEngine e H S i t w) = players w"
  by (simp add: resumeEngine_def afterEndRound_def endRound_save_def safeSave_begin_def
        safeSave_end_def suspendE_def crashGame_finish_def startNewRound_create_def
        startNewRound_saved_def startGamePhase_saved_def setTimer_def emit_def Let_def
        split: etask.splits caller.splits option.splits)

lemma players_placeBet: "players (placeBet e i pid usd cur w) = players w"
  by (simp add: placeBet_def settle_def suspendP_def
        split: option.splits price_step.splits outcome.splits)

lemma players_cashOut: "players (cashOut pid w) = players w"
  by (simp add: cashOut_def settle_def suspendP_def split: sum.splits prod.splits)

lemma walletsValid_write:
  assumes "walletsValid db" and "validates c v"
  shows "walletsValid (writeBalance pid c v db)"
  using assms
  by (auto simp: walletsValid_def writeBalance_def setBalance_def validates_def
        split: option.splits if_splits)

lemma players_resumePlayer:
  "players (resumePlayer i t w) = players w
   \<or> (\<exists>pid c v. validates c v \<and> players (resumePlayer i t w) = writeBalance pid c v (players w))"
  by (cases t)
     (auto simp: resumePlayer_def settle_def suspendP_def emit_def
        placeBet_priced_def placeBet_found_def placeBet_savedPlayer_def placeBet_finish_def
        cashOut_found_def cashOut_savedPlayer_def cashOut_finish_def
        safeSave_begin_def safeSave_end_def Let_def
        split: option.splits prod.splits outcome.splits if_splits)

lemma walletsValid_exec:
  assumes "walletsValid (players w)"
  shows "walletsValid (players (exec e H S i ev w))"
proof (cases ev)
  case Stop
  with assms show ?thesis by (simp add: exec_def players_stop)
next
  case (PlaceBet pid usd cur)
  with assms show ?thesis by (simp add: exec_def players_placeBet)
next
  case (CashOut pid)
  with assms show ?thesis by (simp add: exec_def players_cashOut)
next
  case (Fire h)
  with assms show ?thesis by (simp add: exec_def players_fire)
next
  case (ResumeEngine k)
  with assms show ?thesis by (simp add: exec_def players_resumeEngine)
next
  case (ResumePlayer k)
  from players_resumePlayer [of i "ptasks w ! k" "w\<lparr>ptasks := dropNth k (ptasks w)\<rparr>"] assms
  have "walletsValid (players (resumePlayer i (ptasks w ! k) (w\<lparr>ptasks := dropNth k (ptasks w)\<rparr>)))"
    by (auto simp: walletsValid_write)
  with ResumePlayer assms show ?thesis by (simp add: exec_def)
qed

lemma walletsValid_run:
  "walletsValid (players w) \<Longrightarrow> walletsValid (players (run e H S tr w))"
proof (induction tr arbitrary: w)
  case Nil
  then show ?case by simp
next
  case (Cons x tr)
  obtain i ev where x: "x = (i, ev)" by (cases x)
  from Cons.prems have "walletsValid (players (exec e H S i ev w))" by (rule walletsValid_exec)
  then have "walletsValid (players (run e H S tr (exec e H S i ev w)))" by (rule Cons.IH)
  then show ?case by (simp add: x)
qed

lemma players_start: "players (start e H S i (boot ps rs)) = ps"
  by (simp add: start_def players_startNewRound boot_def)

lemma debit_read:
  assumes "k < length (ptasks w)" and "ptasks w ! k = PlaceBet_Find pid usd cur p"
    and "players w pid = Some wal"
  shows "exec e H S i (ResumePlayer k) w
           = (if num_lt (balanceOf wal cur) (num_div usd p)
              then settle pid (BetRejected InsufficientBalance) (w\<lparr>ptasks := dropNth k (ptasks w)\<rparr>)
              else suspendP (PlaceBet_SavePlayer (betOf i pid usd cur p)
                               (num_sub (balanceOf wal cur) (num_div usd p)))
                     (w\<lparr>ptasks := dropNth k (ptasks w)\<rparr>))"
  using assms
  by (simp add: exec_def resumePlayer_def placeBet_found_def betOf_def Let_def)

lemma debit_write:
  assumes "k < length (ptasks w)" and "ptasks w ! k = PlaceBet_SavePlayer b nb"
  shows "players (exec e H S i (ResumePlayer k) w)
           = (if saveOk i \<and> validates (cryptocurrency b) nb
              then writeBalance (playerId b) (cryptocurrency b) nb (players w)
              else players w)"
  using assms
  by (simp add: exec_def resumePlayer_def placeBet_savedPlayer_def settle_def suspendP_def
        safeSave_begin_def Let_def split: option.splits)

lemma balanceOf_setBalance:
  "c \<in> set [''BTC'', ''ETH'', ''USDT''] \<Longrightarrow> balanceOf (setBalance wal c v) c = v"
  by (auto simp: balanceOf_def setBalance_def)

lemma debit_alone:
  assumes "currentRound (gm w) = Some r" and "status r = waiting"
    and "getPrice e (priceCache (gm w)) (now i) cur (apiResponse i) = (Returned p, c)"
    and "players w pid = Some wal"
  shows "num_lt (balanceOf wal cur) (num_div usd p) \<longrightarrow>
            settled (placeBetAlone e H S i pid usd cur w)
              = settled w @ [(pid, BetRejected InsufficientBalance)]
          \<and> players (placeBetAlone e H S i pid usd cur w) = players w"
    and "\<not> num_lt (balanceOf wal cur) (num_div usd p) \<and> saveOk i
          \<and> validates cur (num_sub (balanceOf wal cur) (num_div usd p)) \<longrightarrow>
            settled (placeBetAlone e H S i pid usd cur w)
              = settled w @ [(pid, BetPlaced (betOf i pid usd cur p))]
          \<and> players (placeBetAlone e H S i pid usd cur w)
              = (players w)(pid \<mapsto> setBalance wal cur (num_sub (balanceOf wal cur) (num_div usd p)))
          \<and> (cur \<in> set [''BTC'', ''ETH'', ''USDT''] \<longrightarrow>
                map_option (\<lambda>wal'. balanceOf wal' cur) (players (placeBetAlone e H S i pid usd cur w) pid)
                  = Some (num_sub (balanceOf wal cur) (num_div usd p))
              \<and> validBalance (num_sub (balanceOf wal cur) (num_div usd p)))"
    and "\<not> num_lt (balanceOf wal cur) (num_div usd p)
          \<and> (\<not> saveOk i \<or> \<not> validates cur (num_sub (balanceOf wal cur) (num_div usd p))) \<longrightarrow>
            settled (placeBetAlone e H S i pid usd cur w)
              = settled w @ [(pid, BetRejected SaveFailed)]
          \<and> players (placeBetAlone e H S i pid usd cur w) = players w"
proof -
  show "num_lt (balanceOf wal cur) (num_div usd p) \<longrightarrow>
            settled (placeBetAlone e H S i pid usd cur w)
              = settled w @ [(pid, BetRejected InsufficientBalance)]
          \<and> players (placeBetAlone e H S i pid usd cur w) = players w"
  proof
    assume lt: "num_lt (balanceOf wal cur) (num_div usd p)"
    with assms(4) have "players w pid = None
        \<or> (\<exists>wal. players w pid = Some wal \<and> num_lt (balanceOf wal cur) (num_div usd p))" by simp
    from placeBetAlone_insufficient [OF assms(1-3) this, of H S]
    show "settled (placeBetAlone e H S i pid usd cur w)
            = settled w @ [(pid, BetRejected InsufficientBalance)]
          \<and> players (placeBetAlone e H S i pid usd cur w) = players w"
      by (simp add: settle_def withCache_def)
  qed
  show "\<not> num_lt (balanceOf wal cur) (num_div usd p) \<and> saveOk i
          \<and> validates cur (num_sub (balanceOf wal cur) (num_div usd p)) \<longrightarrow>
            settled (placeBetAlone e H S i pid usd cur w)
              = settled w @ [(pid, BetPlaced (betOf i pid usd cur p))]
          \<and> players (placeBetAlone e H S i pid usd cur w)
              = (players w)(pid \<mapsto> setBalance wal cur (num_sub (balanceOf wal cur) (num_div usd p)))
          \<and> (cur \<in> set [''BTC'', ''ETH'', ''USDT''] \<longrightarrow>
                map_option (\<lambda>wal'. balanceOf wal' cur) (players (placeBetAlone e H S i pid usd cur w) pid)
                  = Some (num_sub (balanceOf wal cur) (num_div usd p))
              \<and> validBalance (num_sub (balanceOf wal cur) (num_div usd p)))"
  proof
    assume a: "\<not> num_lt (balanceOf wal cur) (num_div usd p) \<and> saveOk i
          \<and> validates cur (num_sub (balanceOf wal cur) (num_div usd p))"
    from placeBetAlone_placed [OF assms(1-4), of usd H S] a
    have s: "settled (placeBetAlone e H S i pid usd cur w)
          = settled w @ [(pid, BetPlaced (betOf i pid usd cur p))]"
      and pl: "players (placeBetAlone e H S i pid usd cur w)
          = (players w)(pid \<mapsto> setBalance wal cur (num_sub (balanceOf wal cur) (num_div usd p)))"
      by simp_all
    have "map_option (\<lambda>wal'. balanceOf wal' cur) (players (placeBetAlone e H S i pid usd cur w) pid)
          = Some (num_sub (balanceOf wal cur) (num_div usd p))
        \<and> validBalance (num_sub (balanceOf wal cur) (num_div usd p))"
      if sc: "cur \<in> set [''BTC'', ''ETH'', ''USDT'']"
    proof -
      from a sc have "validBalance (num_sub (balanceOf wal cur) (num_div usd p))"
        unfolding validates_def by blast
      with pl balanceOf_setBalance [OF sc] show ?thesis by simp
    qed
    with s pl show "settled (placeBetAlone e H S i pid usd cur w)
              = settled w @ [(pid, BetPlaced (betOf i pid usd cur p))]
          \<and> players (placeBetAlone e H S i pid usd cur w)
              = (players w)(pid \<mapsto> setBalance wal cur (num_sub (balanceOf wal cur) (num_div usd p)))
          \<and> (cur \<in> set [''BTC'', ''ETH'', ''USDT''] \<longrightarrow>
                map_option (\<lambda>wal'. balanceOf wal' cur) (players (placeBetAlone e H S i pid usd cur w) pid)
                  = Some (num_sub (balanceOf wal cur) (num_div usd p))
              \<and> validBalance (num_sub (balanceOf wal cur) (num_div usd p)))"
      by blast
  qed
  show "\<not> num_lt (balanceOf wal cur) (num_div usd p)
          \<and> (\<not> saveOk i \<or> \<not> validates cur (num_sub (balanceOf wal cur) (num_div usd p))) \<longrightarrow>
            settled (placeBetAlone e H S i pid usd cur w)
              = settled w @ [(pid, BetRejected SaveFailed)]
          \<and> players (placeBetAlone e H S i pid usd cur w) = players w"
  proof
    assume a: "\<not> num_lt (balanceOf wal cur) (num_div usd p)
          \<and> (\<not> saveOk i \<or> \<not> validates cur (num_sub (balanceOf wal cur) (num_div usd p)))"
    then have n: "\<not> num_lt (balanceOf wal cur) (num_div usd p)"
      and f: "\<not> saveOk i \<or> \<not> validates cur (num_sub (balanceOf wal cur) (num_div usd p))"
      by simp_all
    from placeBetAlone_saveFailed [OF assms(1-4) n f, of H S]
    show "settled (placeBetAlone e H S i pid usd cur w) = settled w @ [(pid, BetRejected SaveFailed)]
          \<and> players (placeBetAlone e H S i pid usd cur w) = players w"
      by (simp add: settle_def withCache_def)
  qed
qed

lemma debit_read_step:
  "k < length (ptasks W) \<and> ptasks W ! k = PlaceBet_Find pid usd cur p
     \<and> players W pid = Some wal \<longrightarrow>
       players (exec e H S j (ResumePlayer k) W) = players W
     \<and> (num_lt (balanceOf wal cur) (num_div usd p) \<longrightarrow>
          settled (exec e H S j (ResumePlayer k) W)
            = settled W @ [(pid, BetRejected InsufficientBalance)]
        \<and> ptasks (exec e H S j (ResumePlayer k) W) = dropNth k (ptasks W))
     \<and> (\<not> num_lt (balanceOf wal cur) (num_div usd p) \<longrightarrow>
          settled (exec e H S j (ResumePlayer k) W) = settled W
        \<and> ptasks (exec e H S j (ResumePlayer k) W)
            = dropNth k (ptasks W)
              @ [PlaceBet_SavePlayer (betOf j pid usd cur p)
                   (num_sub (balanceOf wal cur) (num_div usd p))])"
proof
  assume "k < length (ptasks W) \<and> ptasks W ! k = PlaceBet_Find pid usd cur p
     \<and> players W pid = Some wal"
  then have k: "k < length (ptasks W)" and t: "ptasks W ! k = PlaceBet_Find pid usd cur p"
    and pw: "players W pid = Some wal" by simp_all
  show "players (exec e H S j (ResumePlayer k) W) = players W
     \<and> (num_lt (balanceOf wal cur) (num_div usd p) \<longrightarrow>
          settled (exec e H S j (ResumePlayer k) W)
            = settled W @ [(pid, BetRejected InsufficientBalance)]
        \<and> ptasks (exec e H S j (ResumePlayer k) W) = dropNth k (ptasks W))
     \<and> (\<not> num_lt (balanceOf wal cur) (num_div usd p) \<longrightarrow>
          settled (exec e H S j (ResumePlayer k) W) = settled W
        \<and> ptasks (exec e H S j (ResumePlayer k) W)
            = dropNth k (ptasks W)
              @ [PlaceBet_SavePlayer (betOf j pid usd cur p)
                   (num_sub (balanceOf wal cur) (num_div usd p))])"
    by (simp add: debit_read [OF k t pw] settle_def suspendP_def)
qed

lemma debit_write_step:
  "k < length (ptasks W) \<and> ptasks W ! k = PlaceBet_SavePlayer b nb \<longrightarrow>
     players (exec e H S j (ResumePlayer k) W)
       = (if saveOk j \<and> validates (cryptocurrency b) nb
          then writeBalance (playerId b) (cryptocurrency b) nb (players W)
          else players W)"
  by (simp add: debit_write)

lemma walletsValid_reached:
  "walletsValid ps \<longrightarrow> walletsValid (players (run e H S tr (start e H S i0 (boot ps rs))))"
proof
  assume "walletsValid ps"
  then have "walletsValid (players (start e H S i0 (boot ps rs)))" by (simp add: players_start)
  then show "walletsValid (players (run e H S tr (start e H S i0 (boot ps rs))))"
    by (rule walletsValid_run)
qed

text \<open>
  Claim C6, as amended. In a \<open>placeBet\<close> that runs without interleaving, with the price
  \<open>p\<close> looked up and the player found: when the balance is less than
  \<open>cryptoAmount = usdAmount / p\<close> the call is rejected with ``Insufficient balance'' and
  the wallets are unchanged; when it is not, and the player document is saved, the bet is
  placed and the balance of that currency becomes the balance before minus
  \<open>cryptoAmount\<close>, by one write; when the document is not saved (the database fails, or
  the new balance is not a number or is below 0 and the validation rejects it) the call is
  rejected and the wallets are unchanged.

  In every execution, interleaved or not: the step of \<open>placeBet\<close> that has read the
  player rejects the call when the balance it read is less than \<open>cryptoAmount\<close>, and
  else goes on to write the balance it read minus \<open>cryptoAmount\<close>, changing no wallet
  yet; the step that writes sets that balance, if the document is saved, and changes no
  wallet otherwise; and no balance in the collection is ever negative or not a number, if
  none was when the server started. (The read, the check and the write are separate steps:
  a write of the same balance between them is overwritten.)
\<close>

theorem debit_checked:
  assumes "currentRound (gm w) = Some r" and "status r = waiting"
    and "getPrice e (priceCache (gm w)) (now i) cur (apiResponse i) = (Returned p, c)"
    and "players w pid = Some wal"
  shows "(num_lt (balanceOf wal cur) (num_div usd p) \<longrightarrow>
            settled (placeBetAlone e H S i pid usd cur w)
              = settled w @ [(pid, BetRejected InsufficientBalance)]
          \<and> players (placeBetAlone e H S i pid usd cur w) = players w)
       \<and> (\<not> num_lt (balanceOf wal cur) (num_div usd p) \<and> saveOk i
          \<and> validates cur (num_sub (balanceOf wal cur) (num_div usd p)) \<longrightarrow>
            settled (placeBetAlone e H S i pid usd cur w)
              = settled w @ [(pid, BetPlaced (betOf i pid usd cur p))]
          \<and> players (placeBetAlone e H S i pid usd cur w)
              = (players w)(pid \<mapsto> setBalance wal cur (num_sub (balanceOf wal cur) (num_div usd p)))
          \<and> (cur \<in> set [''BTC'', ''ETH'', ''USDT''] \<longrightarrow>
                map_option (\<lambda>wal'. balanceOf wal' cur) (players (placeBetAlone e H S i pid usd cur w) pid)
                  = Some (num_sub (balanceOf wal cur) (num_div usd p))
              \<and> validBalance (num_sub (balanceOf wal cur) (num_div usd p))))
       \<and> (\<not> num_lt (balanceOf wal cur) (num_div usd p)
          \<and> (\<not> saveOk i \<or> \<not> validates cur (num_sub (balanceOf wal cur) (num_div usd p))) \<longrightarrow>
            settled (placeBetAlone e H S i pid usd cur w)
              = settled w @ [(pid, BetRejected SaveFailed)]
          \<and> players (placeBetAlone e H S i pid usd cur w) = players w)
       \<and> (\<forall>W k j pid' usd' cur' p' wal'.
            k < length (ptasks W) \<and> ptasks W ! k = PlaceBet_Find pid' usd' cur' p'
            \<and> players W pid' = Some wal' \<longrightarrow>
              players (exec e H S j (ResumePlayer k) W) = players W
            \<and> (num_lt (balanceOf wal' cur') (num_div usd' p') \<longrightarrow>
                 settled (exec e H S j (ResumePlayer k) W)
                   = settled W @ [(pid', BetRejected InsufficientBalance)]
               \<and> ptasks (exec e H S j (ResumePlayer k) W) = dropNth k (ptasks W))
            \<and> (\<not> num_lt (balanceOf wal' cur') (num_div usd' p') \<longrightarrow>
                 settled (exec e H S j (ResumePlayer k) W) = settled W
               \<and> ptasks (exec e H S j (ResumePlayer k) W)
                   = dropNth k (ptasks W)
                     @ [PlaceBet_SavePlayer (betOf j pid' usd' cur' p')
                          (num_sub (balanceOf wal' cur') (num_div usd' p'))]))
       \<and> (\<forall>W k j b nb.
            k < length (ptasks W) \<and> ptasks W ! k = PlaceBet_SavePlayer b nb \<longrightarrow>
              players (exec e H S j (ResumePlayer k) W)
                = (if saveOk j \<and> validates (cryptocurrency b) nb
                   then writeBalance (playerId b) (cryptocurrency b) nb (players W)
                   else players W))
       \<and> (walletsValid ps \<longrightarrow>
            walletsValid (players (run e H S tr (start e H S i0 (boot ps rs)))))"
proof (intro conjI allI)
  show "num_lt (balanceOf wal cur) (num_div usd p) \<longrightarrow>
            settled (placeBetAlone e H S i pid usd cur w)
              = settled w @ [(pid, BetRejected InsufficientBalance)]
          \<and> players (placeBetAlone e H S i pid usd cur w) = players w"
    by (rule debit_alone(1) [OF assms])
qed (rule debit_alone(2) [OF assms] debit_alone(3) [OF assms] debit_read_step debit_write_step
      walletsValid_reached)+

theorem lost_update_counterexample:
  "players booted ''alice'' = Some \<lparr>BTC = Num 0, ETH = Num 0, USDT = Num 100\<rparr>
   \<and> map snd (settled (run unsetEnv zeroDigest zeroHash lostUpdateTrace booted))
       = [BetPlaced bet60, BetPlaced bet60]
   \<and> players (run unsetEnv zeroDigest zeroHash lostUpdateTrace booted) ''alice''
       = Some \<lparr>BTC = Num 0, ETH = Num 0, USDT = Num 40\<rparr>"
  by (simp add: lostUpdateTrace_def bet60_def run_defs toUpperCase_USDT cacheTimeout_unsetEnv)

lemma waitingRound_facts:
  "\<exists>r wal c. currentRound (gm waitingRound) = Some r \<and> status r = waiting
     \<and> players waitingRound ''alice'' = Some wal \<and> balanceOf wal ''USDT'' = Num 100
     \<and> wal = \<lparr>BTC = Num 0, ETH = Num 0, USDT = Num 100\<rparr> \<and> players waitingRound = alice
     \<and> getPrice unsetEnv (priceCache (gm waitingRound)) 2 ''USDT'' ApiError = (Returned (Num 1), c)
     \<and> settled waitingRound = []"
  by (simp add: waitingRound_def run_defs toUpperCase_USDT cacheTimeout_unsetEnv getPrice_def)

lemma debitPending_facts:
  "ptasks (run unsetEnv zeroDigest zeroHash debitPendingTrace booted)
     = [PlaceBet_SavePlayer bet60 (Num 40)]
   \<and> players (run unsetEnv zeroDigest zeroHash debitPendingTrace booted) = alice"
  by (simp add: debitPendingTrace_def bet60_def run_defs toUpperCase_USDT cacheTimeout_unsetEnv)

lemma findPending_facts:
  "ptasks (run unsetEnv zeroDigest zeroHash findPendingTrace booted)
     = [PlaceBet_Find ''alice'' (Num 60) ''USDT'' (Num 1)]
   \<and> players (run unsetEnv zeroDigest zeroHash findPendingTrace booted) = alice
   \<and> settled (run unsetEnv zeroDigest zeroHash findPendingTrace booted) = []"
  by (simp add: findPendingTrace_def run_defs toUpperCase_USDT cacheTimeout_unsetEnv)

theorem debit_checked_witness:
  "settled (placeBetAlone unsetEnv zeroDigest zeroHash (inputAt 2) ''alice'' (Num 500) ''USDT''
              waitingRound) = [(''alice'', BetRejected InsufficientBalance)]
   \<and> players (placeBetAlone unsetEnv zeroDigest zeroHash (inputAt 2) ''alice'' (Num 500) ''USDT''
              waitingRound) = alice
   \<and> settled (placeBetAlone unsetEnv zeroDigest zeroHash (inputAt 2) ''alice'' (Num 60) ''USDT''
              waitingRound) = [(''alice'', BetPlaced bet60)]
   \<and> players (placeBetAlone unsetEnv zeroDigest zeroHash (inputAt 2) ''alice'' (Num 60) ''USDT''
              waitingRound) = [''alice'' \<mapsto> \<lparr>BTC = Num 0, ETH = Num 0, USDT = Num 40\<rparr>]
   \<and> settled (placeBetAlone unsetEnv zeroDigest zeroHash ((inputAt 2)\<lparr>saveOk := False\<rparr>) ''alice''
              (Num 60) ''USDT'' waitingRound) = [(''alice'', BetRejected SaveFailed)]
   \<and> ptasks (exec unsetEnv zeroDigest zeroHash (inputAt 3) (ResumePlayer 0)
               (run unsetEnv zeroDigest zeroHash findPendingTrace booted))
       = [PlaceBet_SavePlayer bet60 (Num 40)]
   \<and> players (exec unsetEnv zeroDigest zeroHash (inputAt 4) (ResumePlayer 0)
                (run unsetEnv zeroDigest zeroHash debitPendingTrace booted))
       = [''alice'' \<mapsto> \<lparr>BTC = Num 0, ETH = Num 0, USDT = Num 40\<rparr>]
   \<and> walletsValid alice
   \<and> walletsValid (players (run unsetEnv zeroDigest zeroHash lostUpdateTrace booted))"
proof -
  from waitingRound_facts obtain r wal c where r: "currentRound (gm waitingRound) = Some r"
    and st: "status r = waiting"
    and wal: "players waitingRound ''alice'' = Some wal" "balanceOf wal ''USDT'' = Num 100"
      "wal = \<lparr>BTC = Num 0, ETH = Num 0, USDT = Num 100\<rparr>" "players waitingRound = alice"
    and g: "getPrice unsetEnv (priceCache (gm waitingRound)) 2 ''USDT'' ApiError = (Returned (Num 1), c)"
    and s: "settled waitingRound = []"
    by (elim exE conjE)
  have i2: "now (inputAt 2) = 2" "apiResponse (inputAt 2) = ApiError" "saveOk (inputAt 2)"
    "saveOk (inputAt 4)" "validates ''USDT'' (Num 40)"
    "betOf (inputAt 2) ''alice'' (Num 60) ''USDT'' (Num 1) = bet60"
    "betOf (inputAt 3) ''alice'' (Num 60) ''USDT'' (Num 1) = bet60"
    by (simp_all add: inputAt_def betOf_def bet60_def validates_def validBalance_def)
  have g': "getPrice unsetEnv (priceCache (gm waitingRound)) (now (inputAt 2)) ''USDT''
              (apiResponse (inputAt 2)) = (Returned (Num 1), c)"
    using g by (simp add: i2)
  have g'': "getPrice unsetEnv (priceCache (gm waitingRound)) (now ((inputAt 2)\<lparr>saveOk := False\<rparr>))
               ''USDT'' (apiResponse ((inputAt 2)\<lparr>saveOk := False\<rparr>)) = (Returned (Num 1), c)"
    using g by (simp add: inputAt_def)
  have va: "walletsValid alice"
    by (simp add: walletsValid_def alice_def validBalance_def)
  note p = debitPending_facts
  note f = findPending_facts
  note t = debit_checked [OF r st g' wal(1), of _ zeroDigest zeroHash alice lostUpdateTrace
      "inputAt 0" Map.empty]
  note t' = debit_checked [OF r st g'' wal(1), of "Num 60" zeroDigest zeroHash alice
      lostUpdateTrace "inputAt 0" Map.empty]
  note t1 = t [THEN conjunct1]
  note t2 = t [THEN conjunct2, THEN conjunct1]
  note t3 = t' [THEN conjunct2, THEN conjunct2, THEN conjunct1]
  note t4 = t [of "Num 60", THEN conjunct2, THEN conjunct2, THEN conjunct2, THEN conjunct1,
      rule_format]
  note t5 = t [of "Num 60", THEN conjunct2, THEN conjunct2, THEN conjunct2, THEN conjunct2,
      THEN conjunct1, rule_format]
  note t6 = t [of "Num 60", THEN conjunct2, THEN conjunct2, THEN conjunct2, THEN conjunct2,
      THEN conjunct2]
  from t1 [of "Num 500"] wal s
  have a: "settled (placeBetAlone unsetEnv zeroDigest zeroHash (inputAt 2) ''alice'' (Num 500)
              ''USDT'' waitingRound) = [(''alice'', BetRejected InsufficientBalance)]"
    "players (placeBetAlone unsetEnv zeroDigest zeroHash (inputAt 2) ''alice'' (Num 500) ''USDT''
              waitingRound) = alice"
    by simp_all
  have n60: "\<not> num_lt (balanceOf wal ''USDT'') (num_div (Num 60) (Num 1))"
    "num_sub (balanceOf wal ''USDT'') (num_div (Num 60) (Num 1)) = Num 40"
    by (simp_all add: wal(2) num_sub_def)
  from t2 [of "Num 60"] n60 i2
  have "settled (placeBetAlone unsetEnv zeroDigest zeroHash (inputAt 2) ''alice'' (Num 60)
              ''USDT'' waitingRound) = settled waitingRound @ [(''alice'', BetPlaced bet60)]"
    "players (placeBetAlone unsetEnv zeroDigest zeroHash (inputAt 2) ''alice'' (Num 60) ''USDT''
              waitingRound) = (players waitingRound)(''alice'' \<mapsto> setBalance wal ''USDT'' (Num 40))"
    by simp_all
  then have b: "settled (placeBetAlone unsetEnv zeroDigest zeroHash (inputAt 2) ''alice'' (Num 60)
              ''USDT'' waitingRound) = [(''alice'', BetPlaced bet60)]"
    "players (placeBetAlone unsetEnv zeroDigest zeroHash (inputAt 2) ''alice'' (Num 60) ''USDT''
              waitingRound) = [''alice'' \<mapsto> \<lparr>BTC = Num 0, ETH = Num 0, USDT = Num 40\<rparr>]"
    by (simp_all add: s wal(3,4) alice_def setBalance_def)
  from t3 n60 s
  have b': "settled (placeBetAlone unsetEnv zeroDigest zeroHash ((inputAt 2)\<lparr>saveOk := False\<rparr>)
              ''alice'' (Num 60) ''USDT'' waitingRound) = [(''alice'', BetRejected SaveFailed)]"
    by (simp add: inputAt_def)
  let ?F = "run unsetEnv zeroDigest zeroHash findPendingTrace booted"
  have fw: "players ?F ''alice'' = Some \<lparr>BTC = Num 0, ETH = Num 0, USDT = Num 100\<rparr>"
    "0 < length (ptasks ?F)" "ptasks ?F ! 0 = PlaceBet_Find ''alice'' (Num 60) ''USDT'' (Num 1)"
    using f by (simp_all add: alice_def)
  have nF: "\<not> num_lt (balanceOf \<lparr>BTC = Num 0, ETH = Num 0, USDT = Num 100\<rparr> ''USDT'')
               (num_div (Num 60) (Num 1))"
    "num_sub (balanceOf \<lparr>BTC = Num 0, ETH = Num 0, USDT = Num 100\<rparr> ''USDT'')
       (num_div (Num 60) (Num 1)) = Num 40"
    by (simp_all add: balanceOf_def num_sub_def)
  from t4 [of 0 ?F "''alice''" "Num 60" "''USDT''" "Num 1" _ "inputAt 3"] fw nF
  have "ptasks (exec unsetEnv zeroDigest zeroHash (inputAt 3) (ResumePlayer 0) ?F)
       = dropNth 0 (ptasks ?F) @ [PlaceBet_SavePlayer (betOf (inputAt 3) ''alice'' (Num 60) ''USDT'' (Num 1)) (Num 40)]"
    by simp
  then have c1: "ptasks (exec unsetEnv zeroDigest zeroHash (inputAt 3) (ResumePlayer 0) ?F)
       = [PlaceBet_SavePlayer bet60 (Num 40)]"
    using f by (simp add: i2 dropNth_def)
  let ?D = "run unsetEnv zeroDigest zeroHash debitPendingTrace booted"
  have dw: "0 < length (ptasks ?D)" "ptasks ?D ! 0 = PlaceBet_SavePlayer bet60 (Num 40)"
    using p by simp_all
  have cb: "cryptocurrency bet60 = ''USDT''" "playerId bet60 = ''alice''"
    by (simp_all add: bet60_def)
  from t5 [of 0 ?D bet60 "Num 40" "inputAt 4"] dw i2
  have "players (exec unsetEnv zeroDigest zeroHash (inputAt 4) (ResumePlayer 0) ?D)
       = writeBalance ''alice'' ''USDT'' (Num 40) (players ?D)"
    by (simp add: cb)
  then have c2: "players (exec unsetEnv zeroDigest zeroHash (inputAt 4) (ResumePlayer 0) ?D)
       = [''alice'' \<mapsto> \<lparr>BTC = Num 0, ETH = Num 0, USDT = Num 40\<rparr>]"
    using p by (simp add: writeBalance_def setBalance_def alice_def)
  from t6 va
  have d: "walletsValid (players (run unsetEnv zeroDigest zeroHash lostUpdateTrace booted))"
    by (simp add: booted_def)
  from a b b' c1 c2 va d show ?thesis by simp
qed

lemma stop_Ticking:
  assumes "phaseInv Ticking w"
  shows "phaseInv Stopped (exec e H S i Stop w)"
  using assms by (auto simp: inv_defs exec_def stop_def clearTimer_def)

lemma stop_other:
  assumes "phaseInv ph w" and "ph \<noteq> Ticking"
  shows "exec e H S i Stop w = w"
proof -
  have "filter (\<lambda>(k, t). k \<noteq> h) (timers w) = timers w" if "multiplierInterval (gm w) = Some h" for h
    using assms that by (cases ph) (auto simp: inv_defs)
  then show ?thesis
    by (simp add: exec_def stop_def clearTimer_def split: option.splits)
qed

lemma Stopped_exec:
  assumes "phaseInv Stopped w"
  shows "phaseInv Stopped (exec e H S i ev w)"
proof (cases ev)
  case Stop
  with assms stop_other [OF assms] show ?thesis by simp
next
  case (PlaceBet pid usd cur)
  with inv_player(1) [OF assms] show ?thesis by simp
next
  case (CashOut pid)
  with inv_player(2) [OF assms] show ?thesis by simp
next
  case (Fire h)
  with assms fire_idle [OF assms] show ?thesis by (simp add: exec_def)
next
  case (ResumeEngine k)
  with assms resume_idle [OF assms] show ?thesis by simp
next
  case (ResumePlayer k)
  with inv_player(3) [OF assms] show ?thesis by simp
qed

lemma Stopped_round:
  assumes "phaseInv Stopped w" and "currentRound (gm w) = Some r"
  shows "\<exists>r'. currentRound (gm (exec e H S i ev w)) = Some r' \<and> roundId r' = roundId r
           \<and> status r' = active"
proof -
  from exec_round [OF assms(2), of e H S i ev] obtain r'
    where r': "currentRound (gm (exec e H S i ev w)) = Some r'"
      and kf: "roundKept w r r' \<or> roundFresh r'" by blast
  from Stopped_exec [OF assms(1), of e H S i ev] r' have st: "status r' = active"
    by (auto simp: phaseInv_def)
  with kf have "roundKept w r r'" by (auto simp: roundFresh_def)
  with r' st show ?thesis by (auto simp: roundKept_def)
qed

lemma Stopped_run:
  "phaseInv Stopped w \<Longrightarrow> currentRound (gm w) = Some r \<Longrightarrow>
     phaseInv Stopped (run e H S tr w)
     \<and> (\<exists>r'. currentRound (gm (run e H S tr w)) = Some r' \<and> roundId r' = roundId r
            \<and> status r' = active)"
proof (induction tr arbitrary: w r)
  case Nil
  then show ?case by (auto simp: phaseInv_def)
next
  case (Cons x tr)
  obtain i ev where x: "x = (i, ev)" by (cases x)
  from Stopped_round [OF Cons.prems, of e H S i ev] obtain r1
    where r1: "currentRound (gm (exec e H S i ev w)) = Some r1" "roundId r1 = roundId r" by blast
  have "phaseInv Stopped (exec e H S i ev w)" using Cons.prems(1) by (rule Stopped_exec)
  from Cons.IH [OF this r1(1)] r1(2) show ?case by (simp add: x)
qed

lemma Stopped_quiet:
  assumes "phaseInv Stopped w"
  shows "timers w = [] \<and> etasks w = [] \<and> isGameActive (gm w)
       \<and> exec e H S i (Fire h) w = w \<and> exec e H S i (ResumeEngine k) w = w"
  using assms fire_idle [OF assms, of e H S i h] resume_idle [OF assms, of e H S i k]
  by (auto simp: inv_defs exec_def)

text \<open>
  Claim C8, as amended. \<open>stop()\<close> clears the multiplier interval and nothing else. Called
  while the engine ticks (the interval is the pending timer), it leaves the engine
  quiescent: whatever events follow, no timer and no continuation of the engine is pending,
  a timer event or an engine continuation changes nothing, and the round stays the same
  round, active. Called in any other phase it changes nothing at all: the pending start of
  the game phase and the scheduled creation of the next round are not cancelled.
\<close>

theorem stop_clears_interval:
  assumes "digest32 H" and "num_lt (Num 1) (minCrashOf e)"
    and "num_le (minCrashOf e) (maxCrashOf e)"
  shows "(timers (run e H S tr (start e H S i0 (boot ps rs))) = [(h, Interval UpdateMultiplier)] \<longrightarrow>
            timers (run e H S tr' (exec e H S i Stop (run e H S tr (start e H S i0 (boot ps rs))))) = []
          \<and> etasks (run e H S tr' (exec e H S i Stop (run e H S tr (start e H S i0 (boot ps rs))))) = []
          \<and> exec e H S j (Fire h') (run e H S tr' (exec e H S i Stop (run e H S tr (start e H S i0 (boot ps rs)))))
              = run e H S tr' (exec e H S i Stop (run e H S tr (start e H S i0 (boot ps rs))))
          \<and> exec e H S j (ResumeEngine k) (run e H S tr' (exec e H S i Stop (run e H S tr (start e H S i0 (boot ps rs)))))
              = run e H S tr' (exec e H S i Stop (run e H S tr (start e H S i0 (boot ps rs))))
          \<and> map_option roundId (currentRound (gm (run e H S tr'
                (exec e H S i Stop (run e H S tr (start e H S i0 (boot ps rs)))))))
              = map_option roundId (currentRound (gm (run e H S tr (start e H S i0 (boot ps rs)))))
          \<and> map_option status (currentRound (gm (run e H S tr'
                (exec e H S i Stop (run e H S tr (start e H S i0 (boot ps rs)))))))
              = Some active)
       \<and> (timers (run e H S tr (start e H S i0 (boot ps rs))) \<noteq> [(h, Interval UpdateMultiplier)]
          \<and> multiplierInterval (gm (run e H S tr (start e H S i0 (boot ps rs)))) = Some h \<longrightarrow>
            exec e H S i Stop (run e H S tr (start e H S i0 (boot ps rs)))
              = run e H S tr (start e H S i0 (boot ps rs)))
       \<and> (multiplierInterval (gm (run e H S tr (start e H S i0 (boot ps rs)))) = None \<longrightarrow>
            exec e H S i Stop (run e H S tr (start e H S i0 (boot ps rs)))
              = run e H S tr (start e H S i0 (boot ps rs)))"
proof -
  let ?W = "run e H S tr (start e H S i0 (boot ps rs))"
  have re: "reachable e H S ?W" by (rule reachable_run) (rule reachable.started)
  from reachable_engineInv [OF re] obtain ph where ph: "phaseInv ph ?W"
    by (auto simp: engineInv_def)
  have tick: "ph = Ticking" if "timers ?W = [(h, Interval UpdateMultiplier)]"
    using ph that by (cases ph) (auto simp: inv_defs)
  have other: "ph \<noteq> Ticking"
    if "timers ?W \<noteq> [(h, Interval UpdateMultiplier)]" "multiplierInterval (gm ?W) = Some h"
    using ph that by (cases ph) (auto simp: inv_defs)
  have p1: "timers ?W = [(h, Interval UpdateMultiplier)] \<longrightarrow>
            timers (run e H S tr' (exec e H S i Stop ?W)) = []
          \<and> etasks (run e H S tr' (exec e H S i Stop ?W)) = []
          \<and> exec e H S j (Fire h') (run e H S tr' (exec e H S i Stop ?W))
              = run e H S tr' (exec e H S i Stop ?W)
          \<and> exec e H S j (ResumeEngine k) (run e H S tr' (exec e H S i Stop ?W))
              = run e H S tr' (exec e H S i Stop ?W)
          \<and> map_option roundId (currentRound (gm (run e H S tr' (exec e H S i Stop ?W))))
              = map_option roundId (currentRound (gm ?W))
          \<and> map_option status (currentRound (gm (run e H S tr' (exec e H S i Stop ?W))))
              = Some active"
  proof
    assume t: "timers ?W = [(h, Interval UpdateMultiplier)]"
    with ph tick have pt: "phaseInv Ticking ?W" by simp
    then obtain r where r: "currentRound (gm ?W) = Some r" by (auto simp: phaseInv_def)
    have s: "phaseInv Stopped (exec e H S i Stop ?W)" using pt by (rule stop_Ticking)
    have r1: "currentRound (gm (exec e H S i Stop ?W)) = Some r"
      using r by (simp add: exec_def stop_def clearTimer_def split: option.splits)
    from Stopped_run [OF s r1, of e H S tr'] obtain r'
      where q: "phaseInv Stopped (run e H S tr' (exec e H S i Stop ?W))"
        and r': "currentRound (gm (run e H S tr' (exec e H S i Stop ?W))) = Some r'"
          "roundId r' = roundId r" "status r' = active" by blast
    from Stopped_quiet [OF q, of e H S j h' k] r r'
    show "timers (run e H S tr' (exec e H S i Stop ?W)) = []
          \<and> etasks (run e H S tr' (exec e H S i Stop ?W)) = []
          \<and> exec e H S j (Fire h') (run e H S tr' (exec e H S i Stop ?W))
              = run e H S tr' (exec e H S i Stop ?W)
          \<and> exec e H S j (ResumeEngine k) (run e H S tr' (exec e H S i Stop ?W))
              = run e H S tr' (exec e H S i Stop ?W)
          \<and> map_option roundId (currentRound (gm (run e H S tr' (exec e H S i Stop ?W))))
              = map_option roundId (currentRound (gm ?W))
          \<and> map_option status (currentRound (gm (run e H S tr' (exec e H S i Stop ?W))))
              = Some active"
      by simp
  qed
  have p2: "timers ?W \<noteq> [(h, Interval UpdateMultiplier)] \<and> multiplierInterval (gm ?W) = Some h
              \<longrightarrow> exec e H S i Stop ?W = ?W"
    using stop_other [OF ph] other by blast
  have p3: "multiplierInterval (gm ?W) = None \<longrightarrow> exec e H S i Stop ?W = ?W"
    by (simp add: exec_def stop_def)
  from p1 p2 p3 show ?thesis by blast
qed

theorem stop_counterexample:
  "timers (run unsetEnv zeroDigest zeroHash stopWaitingTrace booted) = [(0, Timeout StartGamePhase)]
   \<and> map_option status (currentRound (gm (run unsetEnv zeroDigest zeroHash stopWaitingTrace booted)))
       = Some waiting
   \<and> map_option status (currentRound (gm (run unsetEnv zeroDigest zeroHash
         (stopWaitingTrace @ afterStopTrace) booted))) = Some active
   \<and> timers (run unsetEnv zeroDigest zeroHash (stopWaitingTrace @ afterStopTrace) booted)
       = [(1, Interval UpdateMultiplier)]
   \<and> map fst (emitted (run unsetEnv zeroDigest zeroHash (stopWaitingTrace @ afterStopTrace) booted))
       = [''round:new'', ''round:started'', ''multiplier:update'']
   \<and> timers (run unsetEnv zeroDigest zeroHash stopCooldownTrace booted)
       = [(2, Timeout StartNewRound)]
   \<and> etasks (run unsetEnv zeroDigest zeroHash [(inputAt 4002, Fire 2)]
        (run unsetEnv zeroDigest zeroHash stopCooldownTrace booted)) \<noteq> []"
  by (simp add: stopWaitingTrace_def afterStopTrace_def stopCooldownTrace_def crashTrace_def
        run_defs crashPoint_zeroDigest cacheTimeout_unsetEnv num_ge_def)

lemma trace_facts:
  "timers (run unsetEnv zeroDigest zeroHash tickingTrace booted) = [(1, Interval UpdateMultiplier)]"
  "timers (run unsetEnv zeroDigest zeroHash cooldownTrace booted) = [(2, Timeout StartNewRound)]"
  "multiplierInterval (gm (run unsetEnv zeroDigest zeroHash cooldownTrace booted)) = Some 1"
  "multiplierInterval (gm (run unsetEnv zeroDigest zeroHash [(inputAt 1, ResumeEngine 0)] booted)) = None"
  by (simp_all add: tickingTrace_def cooldownTrace_def crashTrace_def run_defs
        crashPoint_zeroDigest cacheTimeout_unsetEnv num_ge_def)

theorem stop_clears_interval_witness:
  "digest32 zeroDigest \<and> num_lt (Num 1) (minCrashOf unsetEnv)
   \<and> num_le (minCrashOf unsetEnv) (maxCrashOf unsetEnv)
   \<and> timers (run unsetEnv zeroDigest zeroHash tickingTrace booted) = [(1, Interval UpdateMultiplier)]
   \<and> timers (run unsetEnv zeroDigest zeroHash laterTrace
        (exec unsetEnv zeroDigest zeroHash (inputAt 3003) Stop
           (run unsetEnv zeroDigest zeroHash tickingTrace booted))) = []
   \<and> etasks (run unsetEnv zeroDigest zeroHash laterTrace
        (exec unsetEnv zeroDigest zeroHash (inputAt 3003) Stop
           (run unsetEnv zeroDigest zeroHash tickingTrace booted))) = []
   \<and> map_option status (currentRound (gm (run unsetEnv zeroDigest zeroHash laterTrace
        (exec unsetEnv zeroDigest zeroHash (inputAt 3003) Stop
           (run unsetEnv zeroDigest zeroHash tickingTrace booted))))) = Some active
   \<and> timers (run unsetEnv zeroDigest zeroHash cooldownTrace booted) = [(2, Timeout StartNewRound)]
   \<and> multiplierInterval (gm (run unsetEnv zeroDigest zeroHash cooldownTrace booted)) = Some 1
   \<and> exec unsetEnv zeroDigest zeroHash (inputAt 1002) Stop
        (run unsetEnv zeroDigest zeroHash cooldownTrace booted)
       = run unsetEnv zeroDigest zeroHash cooldownTrace booted
   \<and> multiplierInterval (gm (run unsetEnv zeroDigest zeroHash [(inputAt 1, ResumeEngine 0)] booted)) = None
   \<and> exec unsetEnv zeroDigest zeroHash (inputAt 2) Stop
        (run unsetEnv zeroDigest zeroHash [(inputAt 1, ResumeEngine 0)] booted)
       = run unsetEnv zeroDigest zeroHash [(inputAt 1, ResumeEngine 0)] booted"
proof -
  have h1: "num_lt (Num 1) (minCrashOf unsetEnv)" by (simp add: unsetEnv_crash)
  have h2: "num_le (minCrashOf unsetEnv) (maxCrashOf unsetEnv)"
    by (simp add: unsetEnv_crash num_le_def num_ge_def)
  note t = stop_clears_interval [OF digest32_zeroDigest h1 h2, of zeroHash _ "inputAt 0" alice
      Map.empty _ _ _ "inputAt 0" 0 0, folded booted_def]
  from t [of tickingTrace 1 laterTrace "inputAt 3003"] trace_facts(1)
  have a: "timers (run unsetEnv zeroDigest zeroHash laterTrace
        (exec unsetEnv zeroDigest zeroHash (inputAt 3003) Stop
           (run unsetEnv zeroDigest zeroHash tickingTrace booted))) = []"
    "etasks (run unsetEnv zeroDigest zeroHash laterTrace
        (exec unsetEnv zeroDigest zeroHash (inputAt 3003) Stop
           (run unsetEnv zeroDigest zeroHash tickingTrace booted))) = []"
    "map_option status (currentRound (gm (run unsetEnv zeroDigest zeroHash laterTrace
        (exec unsetEnv zeroDigest zeroHash (inputAt 3003) Stop
           (run unsetEnv zeroDigest zeroHash tickingTrace booted))))) = Some active"
    by blast+
  from t [of cooldownTrace 1 "[]" "inputAt 1002"] trace_facts(2,3)
  have b: "exec unsetEnv zeroDigest zeroHash (inputAt 1002) Stop
        (run unsetEnv zeroDigest zeroHash cooldownTrace booted)
       = run unsetEnv zeroDigest zeroHash cooldownTrace booted"
    by simp
  from t [of "[(inputAt 1, ResumeEngine 0)]" 0 "[]" "inputAt 2"] trace_facts(4)
  have c: "exec unsetEnv zeroDigest zeroHash (inputAt 2) Stop
        (run unsetEnv zeroDigest zeroHash [(inputAt 1, ResumeEngine 0)] booted)
       = run unsetEnv zeroDigest zeroHash [(inputAt 1, ResumeEngine 0)] booted"
    by blast
  from a b c trace_facts digest32_zeroDigest h1 h2 show ?thesis by simp
qed

lemma supported_cases:
  "supported c \<longleftrightarrow> toUpperCase c = ''BTC'' \<or> toUpperCase c = ''ETH'' \<or> toUpperCase c = ''USDT''"
  by (auto simp: supported_def)

lemma cacheOk_empty: "cacheOk Map.empty"
  by (simp add: cacheOk_def)

lemma cacheOk_update:
  "cacheOk cache \<Longrightarrow> 0 < p \<Longrightarrow> (k = ''USDT'' \<longrightarrow> p = 1) \<Longrightarrow>
     cacheOk (cache(k \<mapsto> \<lparr>price = Num p, timestamp = t\<rparr>))"
  by (auto simp: cacheOk_def)

lemma getPrice_catch_supported:
  assumes "supported c"
  shows "getPrice_catch cache c
           = (case cache (toUpperCase c) of
                Some ent \<Rightarrow> Returned (price ent)
              | None \<Rightarrow> Returned (fallbackOf c))"
  using assms
  by (auto simp: getPrice_catch_def supported_cases fallbackPrices_def fallbackOf_def
        split: option.splits)

lemma getPrice_catch_pos:
  assumes "cacheOk cache" and "supported c"
  shows "\<exists>p. getPrice_catch cache c = Returned (Num p) \<and> 0 < p \<and> (toUpperCase c = ''USDT'' \<longrightarrow> p = 1)"
proof (cases "cache (toUpperCase c)")
  case None
  with assms(2) show ?thesis
    by (auto simp: getPrice_catch_supported fallbackOf_def supported_cases)
next
  case (Some ent)
  with assms show ?thesis
    by (auto simp: getPrice_catch_supported cacheOk_def)
qed

lemma getPrice_begin_cache:
  assumes "cacheOk cache" and "getPrice_begin e cache t c = PriceDone r cache'"
  shows "cacheOk cache'"
  using assms
  by (auto simp: getPrice_begin_def Let_def cacheOk_update
        split: option.splits if_splits)

lemma getPrice_begin_fetch:
  assumes "getPrice_begin e cache t c = PriceFetch coin"
  shows "supported c \<and> toUpperCase c \<noteq> ''USDT''"
  using assms
  by (auto simp: getPrice_begin_def Let_def supported_cases cryptoMapping_def
        split: option.splits if_splits)

lemma getPrice_begin_supported:
  assumes "cacheOk cache" and "supported c"
  shows "(\<exists>p cache'. getPrice_begin e cache t c = PriceDone (Returned (Num p)) cache' \<and> 0 < p
            \<and> (toUpperCase c = ''USDT'' \<longrightarrow> p = 1))
       \<or> (\<exists>coin. getPrice_begin e cache t c = PriceFetch coin \<and> toUpperCase c \<noteq> ''USDT'')"
proof (cases "cache (toUpperCase c)")
  case None
  with assms(2) show ?thesis
    by (auto simp: getPrice_begin_def Let_def supported_cases cryptoMapping_def)
next
  case (Some ent)
  from assms(1) Some obtain p where p: "price ent = Num p" "0 < p" "toUpperCase c = ''USDT'' \<longrightarrow> p = 1"
    by (auto simp: cacheOk_def)
  with Some assms(2) show ?thesis
    by (auto simp: getPrice_begin_def Let_def supported_cases cryptoMapping_def)
qed

lemma getPrice_resume_supported:
  assumes "cacheOk cache" and "supported c" and "apiOk a"
  shows "\<exists>p cache'. getPrice_resume cache t c a = (Returned (Num p), cache') \<and> 0 < p
           \<and> (toUpperCase c \<noteq> ''USDT'' \<longrightarrow> cacheOk cache')"
proof -
  from getPrice_catch_pos [OF assms(1,2)] obtain q
    where q: "getPrice_catch cache c = Returned (Num q)" "0 < q" by blast
  show ?thesis
  proof (cases a)
    case ApiError
    with q assms(1) show ?thesis by (simp add: getPrice_resume_def)
  next
    case (ApiData v)
    show ?thesis
    proof (cases v)
      case None
      with ApiData q assms(1) show ?thesis by (simp add: getPrice_resume_def)
    next
      case (Some n)
      with ApiData assms(3) obtain x where x: "n = Num x" "0 \<le> x" by (cases n) auto
      with ApiData Some q assms(1) show ?thesis
        by (auto simp: getPrice_resume_def cacheOk_update)
    qed
  qed
qed

lemma getPrice_resume_cache:
  assumes "cacheOk cache" and "apiOk a" and "toUpperCase c \<noteq> ''USDT''"
  shows "cacheOk (snd (getPrice_resume cache t c a))"
proof (cases a)
  case ApiError
  with assms(1) show ?thesis by (simp add: getPrice_resume_def)
next
  case (ApiData v)
  show ?thesis
  proof (cases v)
    case None
    with ApiData assms(1) show ?thesis by (simp add: getPrice_resume_def)
  next
    case (Some n)
    with ApiData assms(2) obtain x where x: "n = Num x" "0 \<le> x" by (cases n) auto
    with ApiData Some assms(1,3) show ?thesis
      by (auto simp: getPrice_resume_def cacheOk_update)
  qed
qed

lemma cacheOk_applyStep:
  assumes "cacheOk cache" and "stepOk s"
  shows "cacheOk (applyStep e cache s)"
proof (cases s)
  case (BeginStep t c)
  with assms(1) show ?thesis
    by (auto split: price_step.splits dest: getPrice_begin_cache)
next
  case (ResumeStep t c a)
  with assms show ?thesis by (simp add: getPrice_resume_cache)
next
  case ClearStep
  then show ?thesis by (simp add: cacheOk_empty)
qed

lemma cacheOk_foldl:
  "cacheOk cache \<Longrightarrow> list_all stepOk hist \<Longrightarrow> cacheOk (foldl (applyStep e) cache hist)"
  by (induction hist arbitrary: cache) (simp_all add: cacheOk_applyStep)

lemma cacheOk_cacheAfter: "list_all stepOk hist \<Longrightarrow> cacheOk (cacheAfter e hist)"
  by (simp add: cacheAfter_def cacheOk_foldl cacheOk_empty)

lemma getPrice_supported:
  assumes "cacheOk cache" and "supported c" and "apiOk a"
  shows "\<exists>p cache'. getPrice e cache t c a = (Returned (Num p), cache') \<and> 0 < p"
  using getPrice_begin_supported [OF assms(1,2), of e t]
    getPrice_resume_supported [OF assms, of t]
  by (auto simp: getPrice_def)

lemma cache_stop: "priceCache (gm (stop w)) = priceCache (gm w)"
  by (simp add: stop_def clearTimer_def split: option.splits)

lemma cache_endRound: "priceCache (gm (endRound cl i w)) = priceCache (gm w)"
  by (simp add: endRound_def endRound_save_def safeSave_begin_def suspendE_def Let_def
        split: option.splits)

lemma cache_updateMultiplier: "priceCache (gm (updateMultiplier i w)) = priceCache (gm w)"
  by (simp add: updateMultiplier_def crashGame_def endRound_def endRound_save_def
        safeSave_begin_def suspendE_def clearTimer_def emit_def Let_def split: option.splits)

lemma cache_startGamePhase: "priceCache (gm (startGamePhase i w)) = priceCache (gm w)"
  by (simp add: startGamePhase_def safeSave_begin_def suspendE_def Let_def split: option.splits)

lemma cache_startNewRound: "priceCache (gm (startNewRound e H S i w)) = priceCache (gm w)"
  by (simp add: startNewRound_def startNewRound_create_def cache_endRound suspendE_def Let_def)

lemma cache_fire: "priceCache (gm (fire e H S i h w)) = priceCache (gm w)"
  by (simp add: fire_def runCallback_def cache_startGamePhase cache_updateMultiplier
        cache_startNewRound clearTimer_def split: option.splits timer.splits callback.splits)

lemma cache_resumeEngine: "priceCache (gm (resumeEngine e H S i t w)) = priceCache (gm w)"
  by (simp add: resumeEngine_def afterEndRound_def endRound_save_def safeSave_begin_def
        safeSave_end_def suspendE_def crashGame_finish_def startNewRound_create_def
        startNewRound_saved_def startGamePhase_saved_def setTimer_def emit_def Let_def
        split: etask.splits caller.splits option.splits)

lemma pricesInv_cashOut: "pricesInv w \<Longrightarrow> pricesInv (cashOut pid w)"
  by (auto simp: pricesInv_def cashOut_def cashOut_begin_def settle_def suspendP_def
        split: sum.splits prod.splits option.splits if_splits)

lemma pricesInv_placeBet: "pricesInv w \<Longrightarrow> pricesInv (placeBet e i pid usd cur w)"
  by (auto simp: pricesInv_def placeBet_def settle_def suspendP_def
        split: option.splits price_step.splits outcome.splits
        dest: getPrice_begin_cache getPrice_begin_fetch)

lemma pricesInv_resumePlayer:
  assumes "cacheOk (priceCache (gm w))" and "list_all priceTaskOk (ptasks w)"
    and "priceTaskOk t" and "apiOk (apiResponse i)"
  shows "pricesInv (resumePlayer i t w)"
proof (cases t)
  case (PlaceBet_Price pid usd cur coin)
  with assms(3) have u: "toUpperCase cur \<noteq> ''USDT''" by simp
  from getPrice_resume_cache [OF assms(1,4) u, of "now i"] PlaceBet_Price assms(2)
  show ?thesis
    by (auto simp: pricesInv_def resumePlayer_def placeBet_priced_def settle_def suspendP_def
          split: prod.splits outcome.splits)
next
  case (PlaceBet_Find pid usd cur p)
  with assms(1,2) show ?thesis
    by (auto simp: pricesInv_def resumePlayer_def placeBet_found_def settle_def suspendP_def
          Let_def split: option.splits)
next
  case (PlaceBet_SavePlayer b nb)
  with assms(1,2) show ?thesis
    by (auto simp: pricesInv_def resumePlayer_def placeBet_savedPlayer_def settle_def
          suspendP_def safeSave_begin_def Let_def split: option.splits)
next
  case (PlaceBet_SaveRound b d)
  with assms(1,2) show ?thesis
    by (auto simp: pricesInv_def resumePlayer_def placeBet_finish_def settle_def emit_def
          safeSave_end_def Let_def split: option.splits)
next
  case (CashOut_Find b m)
  with assms(1,2) show ?thesis
    by (auto simp: pricesInv_def resumePlayer_def cashOut_found_def settle_def suspendP_def
          split: option.splits)
next
  case (CashOut_SavePlayer b m nb)
  with assms(1,2) show ?thesis
    by (auto simp: pricesInv_def resumePlayer_def cashOut_savedPlayer_def settle_def
          suspendP_def safeSave_begin_def Let_def split: option.splits)
next
  case (CashOut_SaveRound b m d)
  with assms(1,2) show ?thesis
    by (auto simp: pricesInv_def resumePlayer_def cashOut_finish_def settle_def emit_def
          safeSave_end_def Let_def split: option.splits)
qed

lemma pricesInv_exec:
  assumes "pricesInv w" and "apiOk (apiResponse i)"
  shows "pricesInv (exec e H S i ev w)"
proof (cases ev)
  case Stop
  with assms show ?thesis by (simp add: exec_def pricesInv_def cache_stop ptasks_stop)
next
  case (PlaceBet pid usd cur)
  with assms show ?thesis by (simp add: exec_def pricesInv_placeBet)
next
  case (CashOut pid)
  with assms show ?thesis by (simp add: exec_def pricesInv_cashOut)
next
  case (Fire h)
  with assms show ?thesis by (simp add: exec_def pricesInv_def cache_fire ptasks_fire)
next
  case (ResumeEngine k)
  with assms show ?thesis
    by (simp add: exec_def pricesInv_def cache_resumeEngine ptasks_resumeEngine)
next
  case (ResumePlayer k)
  show ?thesis
  proof (cases "k < length (ptasks w)")
    case False
    with ResumePlayer assms show ?thesis by (simp add: exec_def)
  next
    case True
    let ?w = "w\<lparr>ptasks := dropNth k (ptasks w)\<rparr>"
    from assms(1) have a: "cacheOk (priceCache (gm ?w))" "list_all priceTaskOk (ptasks ?w)"
      by (simp_all add: pricesInv_def list_all_dropNth)
    from assms(1) True have "priceTaskOk (ptasks w ! k)"
      by (simp add: pricesInv_def list_all_length)
    from pricesInv_resumePlayer [OF a this assms(2)] ResumePlayer True show ?thesis
      by (simp add: exec_def)
  qed
qed

lemma pricesInv_run:
  "pricesInv w \<Longrightarrow> list_all apiOkAt tr \<Longrightarrow> pricesInv (run e H S tr w)"
proof (induction tr arbitrary: w)
  case Nil
  then show ?case by simp
next
  case (Cons x tr)
  obtain i ev where x: "x = (i, ev)" by (cases x)
  with Cons.prems have "pricesInv (exec e H S i ev w)"
    by (simp add: pricesInv_exec apiOkAt_def)
  with Cons.prems(2) x have "pricesInv (run e H S tr (exec e H S i ev w))"
    by (intro Cons.IH) simp_all
  then show ?case by (simp add: x)
qed

lemma pricesInv_start: "pricesInv (start e H S i (boot ps rs))"
  by (simp add: pricesInv_def start_def cache_startNewRound ptasks_startNewRound boot_def
        newGameManager_def cacheOk_empty)

lemma placeBet_priced_settled:
  assumes "pricesInv w" and "supported cur"
  shows "settled (placeBet e i pid usd cur w) = settled w
       \<or> settled (placeBet e i pid usd cur w) = settled w @ [(pid, BetRejected BettingNotAllowed)]"
proof -
  from assms have c: "cacheOk (priceCache (gm w))" by (simp add: pricesInv_def)
  from getPrice_begin_supported [OF c assms(2), of e "now i"] show ?thesis
    by (auto simp: placeBet_def settle_def suspendP_def split: option.splits)
qed

lemma resume_priced_settled:
  assumes "pricesInv w" and "k < length (ptasks w)"
    and "ptasks w ! k = PlaceBet_Price pid usd cur coin" and "apiOk (apiResponse i)"
  shows "settled (exec e H S i (ResumePlayer k) w) = settled w"
proof -
  from assms(1,2,3) have "priceTaskOk (PlaceBet_Price pid usd cur coin)"
    by (auto simp: pricesInv_def list_all_length)
  then have s: "supported cur" by simp
  from assms(1) have c: "cacheOk (priceCache (gm w))" by (simp add: pricesInv_def)
  from getPrice_resume_supported [OF c s assms(4), of "now i"] assms(2,3) show ?thesis
    by (auto simp: exec_def resumePlayer_def placeBet_priced_def suspendP_def)
qed

lemma pricesInv_trace:
  assumes "list_all apiOkAt tr"
  shows "pricesInv (run e H S tr (start e H S i0 (boot ps rs)))"
  using pricesInv_start assms by (rule pricesInv_run)

lemma placeBet_not_unpriced:
  assumes "pricesInv w" and "supported cur"
  shows "settled (exec e H S i (PlaceBet pid usd cur) w)
           \<noteq> settled w @ [(pid, BetRejected (PriceUnavailable msg))]"
  using placeBet_priced_settled [OF assms, of e i pid usd] by (auto simp: exec_def)

text \<open>
  Claim C10.  For a supported currency (\<open>BTC\<close>, \<open>ETH\<close> or \<open>USDT\<close>, in any case of the
  letters) \<open>getPrice\<close> returns a positive price and does not throw, whatever calls of
  \<open>getPrice\<close> and \<open>clearCache\<close> came before and however they interleaved, as long as
  the prices the API delivered were non-negative numbers.  For \<open>USDT\<close> it returns 1
  before any request is made.  When the request fails it returns the cached price if
  there is one, fresh or not, and else the fallback 45000, 3000 or 1.  In the running
  engine, \<open>placeBet\<close> with a supported currency is therefore never rejected for lack of
  a price, neither before the request nor when its answer arrives.
\<close>

theorem getPrice_supported_positive:
  assumes "list_all stepOk hist" and "supported c" and "apiOk a"
    and "list_all apiOkAt tr" and "apiOk (apiResponse i)"
  shows "(\<exists>p cache'. getPrice e (cacheAfter e hist) t c a = (Returned (Num p), cache') \<and> 0 < p)
       \<and> (toUpperCase c = ''USDT'' \<longrightarrow>
            (\<exists>cache'. getPrice_begin e (cacheAfter e hist) t c = PriceDone (Returned (Num 1)) cache'))
       \<and> fst (getPrice_resume (cacheAfter e hist) t c ApiError)
           = (case cacheAfter e hist (toUpperCase c) of
                Some cached \<Rightarrow> Returned (price cached)
              | None \<Rightarrow> Returned (fallbackOf c))
       \<and> (let w = run e H S tr (start e H S i0 (boot ps rs)) in
            (\<exists>p cache'. getPrice e (priceCache (gm w)) t c a = (Returned (Num p), cache') \<and> 0 < p)
          \<and> (\<forall>msg. settled (exec e H S i (PlaceBet pid usd c) w)
                      \<noteq> settled w @ [(pid, BetRejected (PriceUnavailable msg))])
          \<and> (\<forall>k pid' usd' cur coin.
                k < length (ptasks w) \<and> ptasks w ! k = PlaceBet_Price pid' usd' cur coin \<longrightarrow>
                settled (exec e H S i (ResumePlayer k) w) = settled w))"
proof -
  let ?w = "run e H S tr (start e H S i0 (boot ps rs))"
  have c: "cacheOk (cacheAfter e hist)" using assms(1) by (rule cacheOk_cacheAfter)
  have inv: "pricesInv ?w" using assms(4) by (rule pricesInv_trace)
  then have cw: "cacheOk (priceCache (gm ?w))" by (simp add: pricesInv_def)
  have 1: "\<exists>p cache'. getPrice e (cacheAfter e hist) t c a = (Returned (Num p), cache') \<and> 0 < p"
    using c assms(2,3) by (rule getPrice_supported)
  have 2: "toUpperCase c = ''USDT'' \<longrightarrow>
      (\<exists>cache'. getPrice_begin e (cacheAfter e hist) t c = PriceDone (Returned (Num 1)) cache')"
    using getPrice_begin_supported [OF c assms(2), of e t] by auto
  have 3: "fst (getPrice_resume (cacheAfter e hist) t c ApiError)
           = (case cacheAfter e hist (toUpperCase c) of
                Some cached \<Rightarrow> Returned (price cached)
              | None \<Rightarrow> Returned (fallbackOf c))"
    by (simp add: getPrice_resume_def getPrice_catch_supported [OF assms(2)])
  have 4: "\<exists>p cache'. getPrice e (priceCache (gm ?w)) t c a = (Returned (Num p), cache') \<and> 0 < p"
    using cw assms(2,3) by (rule getPrice_supported)
  have 5: "\<forall>msg. settled (exec e H S i (PlaceBet pid usd c) ?w)
                      \<noteq> settled ?w @ [(pid, BetRejected (PriceUnavailable msg))]"
    using placeBet_not_unpriced [OF inv assms(2)] by blast
  have 6: "\<forall>k pid' usd' cur coin.
                k < length (ptasks ?w) \<and> ptasks ?w ! k = PlaceBet_Price pid' usd' cur coin \<longrightarrow>
                settled (exec e H S i (ResumePlayer k) ?w) = settled ?w"
    using resume_priced_settled [OF inv _ _ assms(5)] by blast
  from 1 2 3 4 5 6 show ?thesis unfolding Let_def by blast
qed

lemma toUpperCase_btc: "toUpperCase ''btc'' = ''BTC''"
  by code_simp

lemma cacheAfter_cleared: "cacheAfter e (hist @ [ClearStep]) = Map.empty"
  by (simp add: cacheAfter_def)

theorem getPrice_supported_positive_witness:
  "list_all stepOk [BeginStep 0 ''USDT'', ClearStep] \<and> supported ''btc'' \<and> apiOk ApiError
   \<and> list_all apiOkAt [(inputAt 1, PlaceBet ''alice'' (Num 10) ''btc'')]
   \<and> apiOk (apiResponse (inputAt 2))
   \<and> (\<exists>p cache'. getPrice unsetEnv (cacheAfter unsetEnv [BeginStep 0 ''USDT'', ClearStep]) 5 ''btc''
                     ApiError = (Returned (Num p), cache') \<and> 0 < p)
   \<and> fst (getPrice_resume (cacheAfter unsetEnv [BeginStep 0 ''USDT'', ClearStep]) 5 ''btc'' ApiError)
       = Returned (Num 45000)
   \<and> settled (exec unsetEnv zeroDigest zeroHash (inputAt 2) (ResumePlayer 0)
                (run unsetEnv zeroDigest zeroHash [(inputAt 1, PlaceBet ''alice'' (Num 10) ''btc'')]
                   booted))
       = settled (run unsetEnv zeroDigest zeroHash [(inputAt 1, PlaceBet ''alice'' (Num 10) ''btc'')]
                    booted)"
proof -
  let ?hist = "[BeginStep 0 ''USDT'', ClearStep]"
  let ?tr = "[(inputAt 1, PlaceBet ''alice'' (Num 10) ''btc'')]"
  let ?w = "run unsetEnv zeroDigest zeroHash ?tr booted"
  have h1: "list_all stepOk ?hist" by simp
  have h2: "supported ''btc''" by (simp add: supported_def toUpperCase_btc)
  have h3: "apiOk ApiError" by simp
  have h4: "list_all apiOkAt ?tr" by (simp add: apiOkAt_def inputAt_def)
  have h5: "apiOk (apiResponse (inputAt 2))" by (simp add: inputAt_def)
  note t = getPrice_supported_positive [OF h1 h2 h3 h4 h5, of unsetEnv 5 zeroDigest zeroHash
      "inputAt 0" alice Map.empty "''alice''" "Num 10", unfolded Let_def, folded booted_def]
  have m: "cacheAfter unsetEnv ?hist = Map.empty"
    using cacheAfter_cleared [of unsetEnv "[BeginStep 0 ''USDT'']"] by simp
  have f: "fst (getPrice_resume (cacheAfter unsetEnv ?hist) 5 ''btc'' ApiError) = Returned (Num 45000)"
    using t by (simp add: m fallbackOf_def toUpperCase_btc)
  have k: "ptasks ?w = [PlaceBet_Price ''alice'' (Num 10) ''btc'' ''bitcoin'']"
    by (simp add: run_defs crashPoint_zeroDigest cacheTimeout_unsetEnv toUpperCase_btc
          cryptoMapping_def)
  from t k have r: "settled (exec unsetEnv zeroDigest zeroHash (inputAt 2) (ResumePlayer 0) ?w)
      = settled ?w"
    by simp
  from h1 h2 h3 h4 h5 t f r show ?thesis by blast
qed






lemma ln_gap:
  fixes a b :: real
  assumes "0 < b" and "0 < a"
  shows "(a - b) / a \<le> ln a - ln b"
proof -
  have "0 < b / a" using assms by simp
  then have "ln (b / a) \<le> b / a - 1" by (rule ln_le_minus_one)
  moreover have "ln (b / a) = ln b - ln a" using assms by (simp add: ln_div)
  moreover have "b / a - 1 = - ((a - b) / a)" using assms by (simp add: field_simps)
  ultimately show ?thesis by linarith
qed

lemma crash_gap:
  fixes n1 n2 :: nat
  assumes "n2 + 4294968 \<le> n1" and "n1 < 4294967295"
  shows "1 / 100 \<le> ln (1 - real n1 / 4294967295) / (- (1 / 10))
                     - ln (1 - real n2 / 4294967295) / (- (1 / 10))"
proof -
  let ?a = "1 - real n2 / 4294967295" and ?b = "1 - real n1 / 4294967295"
  have b: "0 < ?b" using assms(2) by simp
  have a: "0 < ?a" using assms by simp
  have a1: "?a \<le> 1" by simp
  have "real n2 + 4294968 \<le> real n1" using assms(1) by linarith
  then have d: "1 / 1000 \<le> ?a - ?b" by (simp add: field_simps)
  then have "0 \<le> ?a - ?b" by linarith
  then have "(?a - ?b) * ?a \<le> (?a - ?b) * 1" using a1 by (rule mult_left_mono [rotated])
  then have "?a - ?b \<le> (?a - ?b) / ?a"
    using a by (simp add: pos_le_divide_eq)
  also have "\<dots> \<le> ln ?a - ln ?b" by (rule ln_gap [OF b a])
  finally have "1 / 1000 \<le> ln ?a - ln ?b" using d by linarith
  then show ?thesis by simp
qed

lemma crash_low:
  fixes n :: nat
  assumes "n < 4294967295"
  shows "0 \<le> ln (1 - real n / 4294967295) / (- (1 / 10))"
    and "ln (1 - real n / 4294967295) / (- (1 / 10)) \<le> 10 * real n / (4294967295 - real n)"
proof -
  let ?a = "1 - real n / 4294967295"
  have n: "real n < 4294967295" using assms by linarith
  have a: "0 < ?a" "?a \<le> 1" using assms by simp_all
  then have "ln ?a \<le> 0" by simp
  then show "0 \<le> ln ?a / (- (1 / 10))" by simp
  have "(?a - 1) / ?a \<le> ln ?a - ln 1" using a(1) by (intro ln_gap) simp_all
  moreover have "(?a - 1) / ?a = - (real n / (4294967295 - real n))"
    using n by (simp add: field_simps)
  ultimately have "- ln ?a \<le> real n / (4294967295 - real n)" by simp
  then show "ln ?a / (- (1 / 10)) \<le> 10 * real n / (4294967295 - real n)" by simp
qed

lemma clamp_gap:
  fixes c1 c2 lo hi :: real
  assumes "1 / 100 \<le> c1 - c2" and "lo \<le> c2" and "c2 + 1 / 100 \<le> hi"
  shows "1 / 100 \<le> \<bar>min (max c1 lo) hi - min (max c2 lo) hi\<bar>"
  using assms by (simp add: min_def max_def abs_if)

text \<open>The crash point as a real number, for a digest whose first four bytes are not all
  \<open>ff\<close>.\<close>

lemma crash_expr:
  fixes n :: nat
  assumes "n < 4294967295"
  shows "Math_min (Math_max (num_add (Num lo)
            (num_div (Math_log (num_sub (Num 1) (num_div (Num (real n)) (Num 4294967295))))
               (Num (- (1 / 10))))) (Num lo)) (Num hi)
         = Num (min (max (lo + ln (1 - real n / 4294967295) / (- (1 / 10))) lo) hi)"
proof -
  have "0 < 1 - real n / 4294967295" using assms by simp
  then show ?thesis
    by (simp add: num_sub_def Math_max_def Math_min_def min_def max_def)
qed

lemma calculate_closed:
  assumes "digest32 H" and "minCrashOf e = Num lo" and "maxCrashOf e = Num hi"
    and "be_uint (take 4 (H (engineSecret e) (sd @ rid))) = n" and "n < 4294967295"
  shows "calculateCrashPoint e H sd rid
           = Num (min (max (lo + ln (1 - real n / 4294967295) / (- (1 / 10))) lo) hi)"
proof -
  have "4 \<le> length (H (engineSecret e) (sd @ rid))" using assms(1) by (simp add: digest32_def)
  from hashNum_eq [OF this] assms(4)
  have "parseInt16 (take 8 (digest_hex (H (engineSecret e) (sd @ rid)))) = Num (real n)" by simp
  then show ?thesis
    unfolding calculateCrashPoint_def Let_def assms(2,3) by (simp only: crash_expr [OF assms(5)])
qed

lemma verify_closed:
  assumes "digest32 H" and "minCrashOf e = Num lo" and "maxCrashOf e = Num hi"
    and "be_uint (take 4 (H (verifySecret e) (sd @ rid))) = n" and "n < 4294967295"
  shows "verifyCrashPoint e H sd rid
           = Num (min (max (lo + ln (1 - real n / 4294967295) / (- (1 / 10))) lo) hi)"
proof -
  have "4 \<le> length (H (verifySecret e) (sd @ rid))" using assms(1) by (simp add: digest32_def)
  from hashNum_eq [OF this] assms(4)
  have "parseInt16 (take 8 (digest_hex (H (verifySecret e) (sd @ rid)))) = Num (real n)" by simp
  then show ?thesis
    unfolding verifyCrashPoint_def Let_def assms(2,3) by (simp only: crash_expr [OF assms(5)])
qed

lemma verify_same_secret:
  "verifySecret e = engineSecret e \<Longrightarrow> verifyCrashPoint e H sd rid = calculateCrashPoint e H sd rid"
  by (simp add: verifyCrashPoint_def calculateCrashPoint_def Let_def)

lemma secret_set:
  "PROVABLY_FAIR_SECRET e = Some s \<Longrightarrow> s \<noteq> [] \<Longrightarrow> verifySecret e = s \<and> engineSecret e = s"
  by (simp add: verifySecret_def engineSecret_def)

lemma secret_unset:
  "PROVABLY_FAIR_SECRET e = None \<or> PROVABLY_FAIR_SECRET e = Some [] \<Longrightarrow>
     verifySecret e = ''default-secret'' \<and> engineSecret e = ''secret''"
  by (auto simp: verifySecret_def engineSecret_def)

lemma crashPoint_Num:
  assumes "digest32 H" and "minCrashOf e = Num lo" and "maxCrashOf e = Num hi" and "lo \<le> hi"
  shows "\<exists>c. calculateCrashPoint e H sd rid = Num c \<and> lo \<le> c \<and> c \<le> hi"
proof -
  have "num_le (minCrashOf e) (maxCrashOf e)" "minCrashOf e \<noteq> NegInf"
    using assms(2,3,4) by (simp_all add: num_le_def num_ge_def)
  from crashPoint_bounds [OF assms(1) this, of sd rid] show ?thesis
    unfolding assms(2,3)
    by (cases "calculateCrashPoint e H sd rid") (auto simp: num_le_def num_ge_def)
qed

lemma withinTolerance_Num: "withinTolerance (Num a) (Num b) = (\<bar>a - b\<bar> < 1 / 100)"
  by (simp add: withinTolerance_def num_sub_def)

lemma far_gap:
  assumes "farApart lo hi a b"
  shows "1 / 100 \<le> \<bar>min (max (lo + ln (1 - real a / 4294967295) / (- (1 / 10))) lo) hi
                       - min (max (lo + ln (1 - real b / 4294967295) / (- (1 / 10))) lo) hi\<bar>"
proof (rule clamp_gap)
  from assms have ab: "b + 4294968 \<le> a" "a < 4294967295" by (simp_all add: farApart_def)
  then have b: "b < 4294967295" by simp
  from crash_gap [OF ab]
  show "1 / 100 \<le> lo + ln (1 - real a / 4294967295) / (- (1 / 10))
                     - (lo + ln (1 - real b / 4294967295) / (- (1 / 10)))"
    by linarith
  from crash_low(1) [OF b] show "lo \<le> lo + ln (1 - real b / 4294967295) / (- (1 / 10))"
    by linarith
  from assms have "lo + 10 * real b / (4294967295 - real b) + 1 / 100 \<le> hi"
    by (simp add: farApart_def)
  with crash_low(2) [OF b]
  show "lo + ln (1 - real b / 4294967295) / (- (1 / 10)) + 1 / 100 \<le> hi"
    by linarith
qed

lemma far_not_within:
  assumes "digest32 H" and "minCrashOf e = Num lo" and "maxCrashOf e = Num hi"
    and "PROVABLY_FAIR_SECRET e = None \<or> PROVABLY_FAIR_SECRET e = Some []"
    and "farApart lo hi (be_uint (take 4 (H ''secret'' (sd @ rid))))
                        (be_uint (take 4 (H ''default-secret'' (sd @ rid))))
       \<or> farApart lo hi (be_uint (take 4 (H ''default-secret'' (sd @ rid))))
                        (be_uint (take 4 (H ''secret'' (sd @ rid))))"
  shows "\<not> withinTolerance (verifyCrashPoint e H sd rid) (calculateCrashPoint e H sd rid)"
proof -
  let ?n1 = "be_uint (take 4 (H ''secret'' (sd @ rid)))"
  let ?n2 = "be_uint (take 4 (H ''default-secret'' (sd @ rid)))"
  define c1 where "c1 = min (max (lo + ln (1 - real ?n1 / 4294967295) / (- (1 / 10))) lo) hi"
  define c2 where "c2 = min (max (lo + ln (1 - real ?n2 / 4294967295) / (- (1 / 10))) lo) hi"
  from secret_unset [OF assms(4)]
  have s: "verifySecret e = ''default-secret''" "engineSecret e = ''secret''" by simp_all
  from assms(5) have lt: "?n1 < 4294967295" "?n2 < 4294967295"
    by (auto simp: farApart_def)
  have e: "calculateCrashPoint e H sd rid = Num c1"
    unfolding c1_def by (rule calculate_closed [OF assms(1,2,3) _ lt(1)]) (simp add: s)
  have v: "verifyCrashPoint e H sd rid = Num c2"
    unfolding c2_def by (rule verify_closed [OF assms(1,2,3) _ lt(2)]) (simp add: s)
  from assms(5) have "1 / 100 \<le> \<bar>c1 - c2\<bar> \<or> 1 / 100 \<le> \<bar>c2 - c1\<bar>"
    unfolding c1_def c2_def using far_gap [of lo hi ?n1 ?n2] far_gap [of lo hi ?n2 ?n1] by blast
  then have "1 / 100 \<le> \<bar>c2 - c1\<bar>" by (simp add: abs_minus_commute)
  then show ?thesis unfolding e v withinTolerance_Num by linarith
qed

lemma stable_made: "stable (made e H S) (\<lambda>rid r. made e H S r \<and> roundId r = rid)"
  by (simp add: stable_def made_def)

lemma made_newRound: "made e H S (newRound e H S i)"
  by (simp add: made_def newRound_def)

lemma stored_made:
  assumes "storedMade e H S rs"
    and "rounds (run e H S tr (start e H S i (boot ps rs))) rid = Some rd"
  shows "made e H S rd \<and> roundId rd = rid"
proof -
  let ?Q = "\<lambda>rid r. made e H S r \<and> roundId r = rid"
  have q: "\<forall>rid. holds (?Q rid) (rs rid)"
    using assms(1) by (auto simp: storedMade_def holds_def split: option.splits)
  have l: "list_all (\<lambda>x. made e H S (newRound e H S (fst x))) tr"
    by (simp add: made_newRound list_all_iff)
  have "docsInv (made e H S) ?Q (run e H S tr (start e H S i (boot ps rs)))"
    using stable_made l
    by (rule docs_run)
       (rule docs_start [where P = "made e H S" and Q = "?Q", OF made_newRound q])
  then have "holds (?Q rid) (rounds (run e H S tr (start e H S i (boot ps rs))) rid)"
    by (simp add: docsInv_def)
  with assms(2) show ?thesis by simp
qed

lemma late_rounds:
  assumes "calculateCrashPoint e H ''5eed'' ''round_1'' = Num c" and "c \<le> 5"
  shows "rounds (run e H S lateCrashTrace (start e H S (inputAt 0) (boot alice Map.empty)))
           = [''round_1'' \<mapsto> lateRound S c]"
  using assms
  by (simp add: lateCrashTrace_def lateRound_def run_defs num_ge_def Math_max_def num_or_def)

lemma verifiable_presented:
  "verifiable db body rid sd x rd
     \<longleftrightarrow> presented body rid sd x \<and> db rid = Some rd \<and> status rd = crashed"
  by (auto simp: verifiable_def presented_def)

lemma presented_unique:
  "presented body rid sd x \<Longrightarrow> presented body rid' sd' x' \<Longrightarrow> rid' = rid \<and> sd' = sd \<and> x' = x"
  by (simp add: presented_def)


lemma verify_presented:
  assumes "presented body rid sd x"
  shows "verify e H S db body =
     (case db rid of
        None \<Rightarrow> Response 404 [(''error'', JStr ''Round not found'')]
      | Some rd \<Rightarrow>
          if status rd \<noteq> crashed
          then Response 400 [(''error'', JStr ''Round not completed yet'')]
          else if digest_hex (S sd) \<noteq> seedHash rd
          then Response 400 [(''error'', JStr ''Invalid seed'')]
          else Response 200
                 [(''valid'', JBool (withinTolerance (verifyCrashPoint e H sd rid) (crashPoint rd))),
                  (''providedCrashPoint'', JNum x),
                  (''actualCrashPoint'', JNum (crashPoint rd)),
                  (''calculatedCrashPoint'', JNum (toFixed_parsed 2 (verifyCrashPoint e H sd rid))),
                  (''seedHash'', JStr (seedHash rd)),
                  (''seed'', JStr (seed rd))])"
  using assms
  by (simp add: verify_def presented_def withinTolerance_def Let_def split: option.splits)




lemma digest32_hmacAt: "digest32 hmacAt"
  by (simp add: digest32_def hmacAt_def)

lemma hmacAt_numbers:
  "be_uint (take 4 (hmacAt ''secret'' ''5eedround_1'')) = 817621444"
  "be_uint (take 4 (hmacAt ''default-secret'' ''5eedround_1'')) = 239781045"
  "be_uint (take 4 (hmacAt ''fairness'' ''5eedround_1'')) = 1059087152"
  by (simp_all add: hmacAt_def be_uint_def)

lemma secretEnv_crash: "minCrashOf secretEnv = Num (101 / 100)" "maxCrashOf secretEnv = Num 120"
  "engineSecret secretEnv = ''fairness''" "verifySecret secretEnv = ''fairness''"
  by (simp_all add: minCrashOf_def maxCrashOf_def engineSecret_def verifySecret_def secretEnv_def
        num_or_def)

lemma unsetEnv_verifySecret: "verifySecret unsetEnv = ''default-secret''"
  by (simp add: verifySecret_def unsetEnv_def)

lemma crash_between:
  assumes "digest32 H" and "minCrashOf e = Num lo" and "maxCrashOf e = Num hi"
    and "be_uint (take 4 (H (engineSecret e) (sd @ rid))) = n" and "n < 4294967295"
    and "lo \<le> hi"
  shows "\<exists>c. calculateCrashPoint e H sd rid = Num c \<and> lo \<le> c
             \<and> c \<le> lo + 10 * real n / (4294967295 - real n)"
proof -
  let ?x = "ln (1 - real n / 4294967295) / (- (1 / 10))"
  from crash_low [OF assms(5)] have x: "0 \<le> ?x" "?x \<le> 10 * real n / (4294967295 - real n)"
    by simp_all
  have "min (max (lo + ?x) lo) hi \<le> lo + 10 * real n / (4294967295 - real n)"
    using x by (simp add: min_def max_def)
  moreover have "lo \<le> min (max (lo + ?x) lo) hi" using x assms(6) by (simp add: min_def max_def)
  ultimately show ?thesis using calculate_closed [OF assms(1-5)] by simp
qed

lemma secretEnv_crashPoint:
  "\<exists>c. calculateCrashPoint secretEnv hmacAt ''5eed'' ''round_1'' = Num c \<and> 101 / 100 \<le> c \<and> c \<le> 5"
proof -
  have n: "be_uint (take 4 (hmacAt (engineSecret secretEnv) (''5eed'' @ ''round_1''))) = 1059087152"
    by (simp add: secretEnv_crash hmacAt_def be_uint_def)
  have "\<exists>c. calculateCrashPoint secretEnv hmacAt ''5eed'' ''round_1'' = Num c \<and> 101 / 100 \<le> c
             \<and> c \<le> 101 / 100 + 10 * real (1059087152 :: nat) / (4294967295 - real (1059087152 :: nat))"
    by (rule crash_between [OF digest32_hmacAt secretEnv_crash(1,2) n]) simp_all
  then obtain c where c: "calculateCrashPoint secretEnv hmacAt ''5eed'' ''round_1'' = Num c"
    "101 / 100 \<le> c"
    "c \<le> 101 / 100 + 10 * real (1059087152 :: nat) / (4294967295 - real (1059087152 :: nat))"
    by blast
  from c(3) have "c \<le> 5" by simp
  with c(1,2) show ?thesis by blast
qed

lemma unsetEnv_crashPoint:
  "\<exists>c. calculateCrashPoint unsetEnv hmacAt ''5eed'' ''round_1'' = Num c \<and> 101 / 100 \<le> c \<and> c \<le> 5"
proof -
  have n: "be_uint (take 4 (hmacAt (engineSecret unsetEnv) (''5eed'' @ ''round_1''))) = 817621444"
    by (simp add: unsetEnv_crash hmacAt_def be_uint_def)
  have "\<exists>c. calculateCrashPoint unsetEnv hmacAt ''5eed'' ''round_1'' = Num c \<and> 101 / 100 \<le> c
             \<and> c \<le> 101 / 100 + 10 * real (817621444 :: nat) / (4294967295 - real (817621444 :: nat))"
    by (rule crash_between [OF digest32_hmacAt unsetEnv_crash(1,2) n]) simp_all
  then obtain c where c: "calculateCrashPoint unsetEnv hmacAt ''5eed'' ''round_1'' = Num c"
    "101 / 100 \<le> c"
    "c \<le> 101 / 100 + 10 * real (817621444 :: nat) / (4294967295 - real (817621444 :: nat))"
    by blast
  from c(3) have "c \<le> 5" by simp
  with c(1,2) show ?thesis by blast
qed




lemma lateRound_simps:
  "status (lateRound S c) = crashed" "seedHash (lateRound S c) = digest_hex (S ''5eed'')"
  "crashPoint (lateRound S c) = Num c" "seed (lateRound S c) = ''5eed''"
  "roundId (lateRound S c) = ''round_1''"
  by (simp_all add: lateRound_def)



lemma roundTrip_presented:
  assumes "rid \<noteq> []" and "seed rd \<noteq> []" and "crashPoint rd = Num c" and "0 < c"
  shows "presented (roundTrip rid rd) rid (seed rd) (crashPoint rd)"
  using assms by (simp add: presented_def roundTrip_def)

lemma roundTrip_valid:
  assumes "digest32 H" and "minCrashOf e = Num lo" and "maxCrashOf e = Num hi"
    and "0 < lo" and "lo \<le> hi"
    and "storedMade e H S rs"
    and "rounds (run e H S tr (start e H S i0 (boot ps rs))) rid = Some rd"
    and "status rd = crashed" and "rid \<noteq> []" and "seed rd \<noteq> []"
  shows "verify e H S (rounds (run e H S tr (start e H S i0 (boot ps rs)))) (roundTrip rid rd)
           = Response 200
               [(''valid'', JBool (withinTolerance (verifyCrashPoint e H (seed rd) rid)
                                     (calculateCrashPoint e H (seed rd) rid))),
                (''providedCrashPoint'', JNum (crashPoint rd)),
                (''actualCrashPoint'', JNum (crashPoint rd)),
                (''calculatedCrashPoint'', JNum (toFixed_parsed 2 (verifyCrashPoint e H (seed rd) rid))),
                (''seedHash'', JStr (seedHash rd)),
                (''seed'', JStr (seed rd))]"
    and "withinTolerance (calculateCrashPoint e H (seed rd) rid) (calculateCrashPoint e H (seed rd) rid)"
    and "crashPoint rd = calculateCrashPoint e H (seed rd) rid"
    and "seedHash rd = digest_hex (S (seed rd))"
proof -
  from stored_made [OF assms(6,7)]
  have m: "crashPoint rd = calculateCrashPoint e H (seed rd) rid"
    "seedHash rd = digest_hex (S (seed rd))" "roundId rd = rid"
    by (simp_all add: made_def)
  from crashPoint_Num [OF assms(1,2,3,5), of "seed rd" rid] obtain c
    where c: "calculateCrashPoint e H (seed rd) rid = Num c" "lo \<le> c" by blast
  have p: "presented (roundTrip rid rd) rid (seed rd) (crashPoint rd)"
    using assms(4) c by (intro roundTrip_presented [OF assms(9,10), of c]) (simp_all add: m)
  show "verify e H S (rounds (run e H S tr (start e H S i0 (boot ps rs)))) (roundTrip rid rd)
           = Response 200
               [(''valid'', JBool (withinTolerance (verifyCrashPoint e H (seed rd) rid)
                                     (calculateCrashPoint e H (seed rd) rid))),
                (''providedCrashPoint'', JNum (crashPoint rd)),
                (''actualCrashPoint'', JNum (crashPoint rd)),
                (''calculatedCrashPoint'', JNum (toFixed_parsed 2 (verifyCrashPoint e H (seed rd) rid))),
                (''seedHash'', JStr (seedHash rd)),
                (''seed'', JStr (seed rd))]"
    by (simp add: verify_presented [OF p] assms(7,8) m(2)) (simp add: m(1))
  show "withinTolerance (calculateCrashPoint e H (seed rd) rid) (calculateCrashPoint e H (seed rd) rid)"
    by (simp add: c(1) withinTolerance_Num)
  show "crashPoint rd = calculateCrashPoint e H (seed rd) rid" by (rule m(1))
  show "seedHash rd = digest_hex (S (seed rd))" by (rule m(2))
qed

text \<open>Claim C2, as the code has it. The engine keys the digest with
  \<open>process.env.PROVABLY_FAIR_SECRET || 'secret'\<close>, \<open>/verify\<close> with
  \<open>process.env.PROVABLY_FAIR_SECRET || 'default-secret'\<close>. Take any round that the engine
  has stored as crashed, in any reached state, and send back to \<open>/verify\<close> what the engine
  published for it: its id, its seed and its crash point (\<open>roundTrip\<close>). The recomputed
  hash of the seed always matches the stored seed hash and the answer is always a 200. When
  the secret is set (and not empty) the answer is \<open>valid: true\<close>: the round trip succeeds.
  When the secret is unset (or empty) the two sides key the digest differently, with
  \<open>'secret'\<close> and \<open>'default-secret'\<close>, and whenever the two digests lie far enough
  apart (\<open>farApart\<close>, either way round) the answer is \<open>valid: false\<close>: the engine's
  own output is rejected.\<close>

theorem verify_round_trip:
  assumes "digest32 H" and "minCrashOf e = Num lo" and "maxCrashOf e = Num hi"
    and "0 < lo" and "lo \<le> hi"
    and "storedMade e H S rs"
    and "rounds (run e H S tr (start e H S i0 (boot ps rs))) rid = Some rd"
    and "status rd = crashed" and "rid \<noteq> []" and "seed rd \<noteq> []"
  shows "statusCode (verify e H S (rounds (run e H S tr (start e H S i0 (boot ps rs))))
                       (roundTrip rid rd)) = 200
       \<and> digest_hex (S (seed rd)) = seedHash rd
       \<and> crashPoint rd = calculateCrashPoint e H (seed rd) rid
       \<and> map_of (bodyOf (verify e H S (rounds (run e H S tr (start e H S i0 (boot ps rs))))
                           (roundTrip rid rd))) ''valid''
           = Some (JBool (withinTolerance (verifyCrashPoint e H (seed rd) rid)
                            (calculateCrashPoint e H (seed rd) rid)))
       \<and> ((\<exists>s. PROVABLY_FAIR_SECRET e = Some s \<and> s \<noteq> []) \<longrightarrow>
            verifySecret e = engineSecret e
            \<and> map_of (bodyOf (verify e H S (rounds (run e H S tr (start e H S i0 (boot ps rs))))
                                (roundTrip rid rd))) ''valid''
                = Some (JBool True))
       \<and> (PROVABLY_FAIR_SECRET e = None \<or> PROVABLY_FAIR_SECRET e = Some [] \<longrightarrow>
            engineSecret e = ''secret'' \<and> verifySecret e = ''default-secret''
            \<and> (farApart lo hi (be_uint (take 4 (H ''secret'' (seed rd @ rid))))
                              (be_uint (take 4 (H ''default-secret'' (seed rd @ rid))))
               \<or> farApart lo hi (be_uint (take 4 (H ''default-secret'' (seed rd @ rid))))
                                (be_uint (take 4 (H ''secret'' (seed rd @ rid)))) \<longrightarrow>
               map_of (bodyOf (verify e H S (rounds (run e H S tr (start e H S i0 (boot ps rs))))
                                 (roundTrip rid rd))) ''valid''
                 = Some (JBool False)))"
proof -
  note v = roundTrip_valid [OF assms]
  have a: "statusCode (verify e H S (rounds (run e H S tr (start e H S i0 (boot ps rs))))
                       (roundTrip rid rd)) = 200"
    by (simp add: v(1))
  have b: "map_of (bodyOf (verify e H S (rounds (run e H S tr (start e H S i0 (boot ps rs))))
                           (roundTrip rid rd))) ''valid''
           = Some (JBool (withinTolerance (verifyCrashPoint e H (seed rd) rid)
                            (calculateCrashPoint e H (seed rd) rid)))"
    by (simp add: v(1))
  have c: "(\<exists>s. PROVABLY_FAIR_SECRET e = Some s \<and> s \<noteq> []) \<longrightarrow>
            verifySecret e = engineSecret e
            \<and> map_of (bodyOf (verify e H S (rounds (run e H S tr (start e H S i0 (boot ps rs))))
                                (roundTrip rid rd))) ''valid''
                = Some (JBool True)"
  proof
    assume "\<exists>s. PROVABLY_FAIR_SECRET e = Some s \<and> s \<noteq> []"
    then obtain s where "PROVABLY_FAIR_SECRET e = Some s" "s \<noteq> []" by blast
    from secret_set [OF this] have s: "verifySecret e = engineSecret e" by simp
    from v(2) show "verifySecret e = engineSecret e
            \<and> map_of (bodyOf (verify e H S (rounds (run e H S tr (start e H S i0 (boot ps rs))))
                                (roundTrip rid rd))) ''valid''
                = Some (JBool True)"
      by (simp add: b verify_same_secret [OF s] s)
  qed
  have d: "PROVABLY_FAIR_SECRET e = None \<or> PROVABLY_FAIR_SECRET e = Some [] \<longrightarrow>
            engineSecret e = ''secret'' \<and> verifySecret e = ''default-secret''
            \<and> (farApart lo hi (be_uint (take 4 (H ''secret'' (seed rd @ rid))))
                              (be_uint (take 4 (H ''default-secret'' (seed rd @ rid))))
               \<or> farApart lo hi (be_uint (take 4 (H ''default-secret'' (seed rd @ rid))))
                                (be_uint (take 4 (H ''secret'' (seed rd @ rid)))) \<longrightarrow>
               map_of (bodyOf (verify e H S (rounds (run e H S tr (start e H S i0 (boot ps rs))))
                                 (roundTrip rid rd))) ''valid''
                 = Some (JBool False))"
  proof (intro impI conjI)
    assume u: "PROVABLY_FAIR_SECRET e = None \<or> PROVABLY_FAIR_SECRET e = Some []"
    from secret_unset [OF u] show "engineSecret e = ''secret''" "verifySecret e = ''default-secret''"
      by simp_all
    assume f: "farApart lo hi (be_uint (take 4 (H ''secret'' (seed rd @ rid))))
                              (be_uint (take 4 (H ''default-secret'' (seed rd @ rid))))
               \<or> farApart lo hi (be_uint (take 4 (H ''default-secret'' (seed rd @ rid))))
                                (be_uint (take 4 (H ''secret'' (seed rd @ rid))))"
    from far_not_within [OF assms(1,2,3) u f]
    show "map_of (bodyOf (verify e H S (rounds (run e H S tr (start e H S i0 (boot ps rs))))
                                 (roundTrip rid rd))) ''valid''
                 = Some (JBool False)"
      by (simp add: b)
  qed
  from a v(4) [symmetric] v(3) b c d show ?thesis by (intro conjI)
qed

text \<open>With the secret unset, the round that the engine made from the seed \<open>5eed\<close> under
  the id \<open>round_1\<close> and stored as crashed is answered \<open>valid: false\<close> when its own
  crash point is sent back; with the secret set, \<open>valid: true\<close>.\<close>

theorem verify_round_trip_witness:
  "(\<exists>rd. rounds (run unsetEnv hmacAt sha256At lateCrashTrace
                   (start unsetEnv hmacAt sha256At (inputAt 0) (boot alice Map.empty))) ''round_1''
            = Some rd
        \<and> status rd = crashed \<and> seed rd = ''5eed''
        \<and> PROVABLY_FAIR_SECRET unsetEnv = None
        \<and> farApart (101 / 100) 120 (be_uint (take 4 (hmacAt ''secret'' (seed rd @ ''round_1''))))
                                    (be_uint (take 4 (hmacAt ''default-secret'' (seed rd @ ''round_1''))))
        \<and> statusCode (verify unsetEnv hmacAt sha256At
             (rounds (run unsetEnv hmacAt sha256At lateCrashTrace
                        (start unsetEnv hmacAt sha256At (inputAt 0) (boot alice Map.empty))))
             (roundTrip ''round_1'' rd)) = 200
        \<and> map_of (bodyOf (verify unsetEnv hmacAt sha256At
             (rounds (run unsetEnv hmacAt sha256At lateCrashTrace
                        (start unsetEnv hmacAt sha256At (inputAt 0) (boot alice Map.empty))))
             (roundTrip ''round_1'' rd))) ''valid''
          = Some (JBool False))
   \<and> (\<exists>rd. rounds (run secretEnv hmacAt sha256At lateCrashTrace
                   (start secretEnv hmacAt sha256At (inputAt 0) (boot alice Map.empty))) ''round_1''
            = Some rd
        \<and> status rd = crashed \<and> seed rd = ''5eed''
        \<and> PROVABLY_FAIR_SECRET secretEnv = Some ''fairness''
        \<and> map_of (bodyOf (verify secretEnv hmacAt sha256At
             (rounds (run secretEnv hmacAt sha256At lateCrashTrace
                        (start secretEnv hmacAt sha256At (inputAt 0) (boot alice Map.empty))))
             (roundTrip ''round_1'' rd))) ''valid''
          = Some (JBool True))"
proof -
  let ?U = "run unsetEnv hmacAt sha256At lateCrashTrace
              (start unsetEnv hmacAt sha256At (inputAt 0) (boot alice Map.empty))"
  let ?V = "run secretEnv hmacAt sha256At lateCrashTrace
              (start secretEnv hmacAt sha256At (inputAt 0) (boot alice Map.empty))"
  have sm: "storedMade e hmacAt sha256At Map.empty" for e by (simp add: storedMade_def)
  have ne: "''round_1'' \<noteq> []" "(0::real) < 101 / 100" "(101::real) / 100 \<le> 120" by simp_all
  from unsetEnv_crashPoint obtain c
    where c: "calculateCrashPoint unsetEnv hmacAt ''5eed'' ''round_1'' = Num c" "c \<le> 5" by blast
  from secretEnv_crashPoint obtain d
    where d: "calculateCrashPoint secretEnv hmacAt ''5eed'' ''round_1'' = Num d" "d \<le> 5" by blast
  have u: "rounds ?U ''round_1'' = Some (lateRound sha256At c)"
    by (simp add: late_rounds [OF c])
  have v: "rounds ?V ''round_1'' = Some (lateRound sha256At d)"
    by (simp add: late_rounds [OF d])
  have l: "status (lateRound sha256At x) = crashed" "seed (lateRound sha256At x) = ''5eed''"
    "seed (lateRound sha256At x) \<noteq> []" for x
    by (simp_all add: lateRound_simps)
  have pu: "PROVABLY_FAIR_SECRET unsetEnv = None \<or> PROVABLY_FAIR_SECRET unsetEnv = Some []"
    "PROVABLY_FAIR_SECRET unsetEnv = None"
    by (simp_all add: unsetEnv_def)
  have pv: "\<exists>s. PROVABLY_FAIR_SECRET secretEnv = Some s \<and> s \<noteq> []"
    "PROVABLY_FAIR_SECRET secretEnv = Some ''fairness''"
    by (simp_all add: secretEnv_def)
  have f: "farApart (101 / 100) 120
             (be_uint (take 4 (hmacAt ''secret'' (seed (lateRound sha256At c) @ ''round_1''))))
             (be_uint (take 4 (hmacAt ''default-secret'' (seed (lateRound sha256At c) @ ''round_1''))))"
    by (simp add: l hmacAt_numbers farApart_def)
  note tu = verify_round_trip [OF digest32_hmacAt unsetEnv_crash(1,2) ne(2,3) sm u l(1) ne(1) l(3)]
  note tv = verify_round_trip [OF digest32_hmacAt secretEnv_crash(1,2) ne(2,3) sm v l(1) ne(1) l(3)]
  from tu have a: "statusCode (verify unsetEnv hmacAt sha256At (rounds ?U)
                                 (roundTrip ''round_1'' (lateRound sha256At c))) = 200"
    by (rule conjunct1)
  from tu [THEN conjunct2, THEN conjunct2, THEN conjunct2, THEN conjunct2, THEN conjunct2,
      rule_format, OF pu(1), THEN conjunct2, THEN conjunct2, rule_format, OF disjI1, OF f]
  have b: "map_of (bodyOf (verify unsetEnv hmacAt sha256At (rounds ?U)
                             (roundTrip ''round_1'' (lateRound sha256At c)))) ''valid''
             = Some (JBool False)" .
  from tv [THEN conjunct2, THEN conjunct2, THEN conjunct2, THEN conjunct2, THEN conjunct1,
      rule_format, OF pv(1), THEN conjunct2]
  have g: "map_of (bodyOf (verify secretEnv hmacAt sha256At (rounds ?V)
                             (roundTrip ''round_1'' (lateRound sha256At d)))) ''valid''
             = Some (JBool True)" .
  from u l(1,2) pu(2) f a b
  have 1: "\<exists>rd. rounds ?U ''round_1'' = Some rd
        \<and> status rd = crashed \<and> seed rd = ''5eed''
        \<and> PROVABLY_FAIR_SECRET unsetEnv = None
        \<and> farApart (101 / 100) 120 (be_uint (take 4 (hmacAt ''secret'' (seed rd @ ''round_1''))))
                                    (be_uint (take 4 (hmacAt ''default-secret'' (seed rd @ ''round_1''))))
        \<and> statusCode (verify unsetEnv hmacAt sha256At (rounds ?U) (roundTrip ''round_1'' rd)) = 200
        \<and> map_of (bodyOf (verify unsetEnv hmacAt sha256At (rounds ?U) (roundTrip ''round_1'' rd))) ''valid''
          = Some (JBool False)"
    by blast
  from v l(1,2) pv(2) g
  have 2: "\<exists>rd. rounds ?V ''round_1'' = Some rd
        \<and> status rd = crashed \<and> seed rd = ''5eed''
        \<and> PROVABLY_FAIR_SECRET secretEnv = Some ''fairness''
        \<and> map_of (bodyOf (verify secretEnv hmacAt sha256At (rounds ?V) (roundTrip ''round_1'' rd))) ''valid''
          = Some (JBool True)"
    by blast
  from 1 2 show ?thesis by (rule conjI)
qed

end
